theory Spec2Isabelle
  imports Complex_Main "HOL-Library.Multiset"
begin

section \<open>Dinero: an expense logger (Script.js)\<close>

text \<open>
  The script keeps an array \<^verbatim>\<open>expenses\<close>, reads a form, and writes to a handful of
  elements of the hosting document. The embedding below follows the script function by
  function: \<^verbatim>\<open>showMessage\<close>, \<^verbatim>\<open>setDefaultDate\<close>, \<^verbatim>\<open>showPage\<close>, \<^verbatim>\<open>updateUI\<close>,
  \<^verbatim>\<open>handleFormSubmit\<close> and the body of the \<^verbatim>\<open>DOMContentLoaded\<close> listener. The language
  built-ins the script calls (\<^verbatim>\<open>parseFloat\<close>, Number addition, \<^verbatim>\<open>toFixed\<close>,
  \<^verbatim>\<open>new Date(string)\<close>, \<^verbatim>\<open>Array.prototype.sort\<close>, \<^verbatim>\<open>classList\<close>) are written out
  first, after ECMAScript and the DOM standard; where ECMAScript leaves the result to the
  engine (a date string outside the date-time string format, the order of a sort whose
  comparator is inconsistent), after V8.
\<close>

subsection \<open>Numbers: IEEE 754 binary64\<close>

text \<open>
  A JavaScript Number is NaN, an infinity, negative zero, or a finite double. A finite
  double is kept as the rational it denotes (\<open>Fin 0\<close> is positive zero); every operation
  that produces one rounds to the nearest double, ties to even.
\<close>

datatype jsnum = NaN | PosInf | NegInf | NegZero | Fin rat

definition pow2 :: "int \<Rightarrow> rat" where
  "pow2 k = (if 0 \<le> k then 2 ^ nat k else 1 / 2 ^ nat (- k))"

definition pow10 :: "int \<Rightarrow> rat" where
  "pow10 k = (if 0 \<le> k then 10 ^ nat k else 1 / 10 ^ nat (- k))"

text \<open>
  For \<open>0 < q\<close>, the exponent \<open>e\<close> with \<open>2 ^ e \<le> q < 2 ^ (e + 1)\<close>, found by halving
  from above and by doubling from below.
\<close>

function log2_from_above :: "rat \<Rightarrow> int" where
  "log2_from_above q = (if q < 2 then 0 else log2_from_above (q / 2) + 1)"
  by pat_completeness auto
termination
proof (relation "measure (\<lambda>q. nat \<lfloor>q\<rfloor>)")
  show "wf (measure (\<lambda>q::rat. nat \<lfloor>q\<rfloor>))" by simp
next
  fix q :: rat
  assume "\<not> q < 2"
  then have "q / 2 \<le> q - 1" and "2 \<le> \<lfloor>q\<rfloor>" by simp_all
  moreover from \<open>q / 2 \<le> q - 1\<close> have "\<lfloor>q / 2\<rfloor> \<le> \<lfloor>q - 1\<rfloor>" by (rule floor_mono)
  moreover have "\<lfloor>q - 1\<rfloor> = \<lfloor>q\<rfloor> - 1" by (rule floor_diff_one)
  ultimately have "nat \<lfloor>q / 2\<rfloor> < nat \<lfloor>q\<rfloor>" by linarith
  then show "(q / 2, q) \<in> measure (\<lambda>q. nat \<lfloor>q\<rfloor>)" by simp
qed

function log2_from_below :: "rat \<Rightarrow> int" where
  "log2_from_below q = (if 1 \<le> q \<or> q \<le> 0 then 0 else log2_from_below (q * 2) - 1)"
  by pat_completeness auto
termination
proof (relation "measure (\<lambda>q. nat \<lceil>1 / q\<rceil>)")
  show "wf (measure (\<lambda>q::rat. nat \<lceil>1 / q\<rceil>))" by simp
next
  fix q :: rat
  assume "\<not> (1 \<le> q \<or> q \<le> 0)"
  then have q: "0 < q" "q < 1" by simp_all
  then have x: "1 < 1 / q" by simp
  have "\<lceil>1 / (q * 2)\<rceil> < \<lceil>1 / q\<rceil>"
  proof (cases "1 / q \<le> 2")
    case True
    then have "1 / (q * 2) \<le> 1" by simp
    then have "\<lceil>1 / (q * 2)\<rceil> \<le> 1" by (simp add: ceiling_le_one)
    moreover from x have "1 < \<lceil>1 / q\<rceil>" by (simp add: less_ceiling_iff)
    ultimately show ?thesis by linarith
  next
    case False
    then have "1 / (q * 2) \<le> 1 / q - 1" by simp
    then have "\<lceil>1 / (q * 2)\<rceil> \<le> \<lceil>1 / q - 1\<rceil>" by (rule ceiling_mono)
    moreover have "\<lceil>1 / q - 1\<rceil> = \<lceil>1 / q\<rceil> - 1" by (rule ceiling_diff_one)
    ultimately show ?thesis by linarith
  qed
  moreover from q have "0 < \<lceil>1 / q\<rceil>" by (simp add: less_ceiling_iff)
  ultimately have "nat \<lceil>1 / (q * 2)\<rceil> < nat \<lceil>1 / q\<rceil>" by linarith
  then show "(q * 2, q) \<in> measure (\<lambda>q. nat \<lceil>1 / q\<rceil>)" by simp
qed

declare log2_from_above.simps [simp del] log2_from_below.simps [simp del]

definition floor_log2 :: "rat \<Rightarrow> int" where
  "floor_log2 q = (if 1 \<le> q then log2_from_above q else log2_from_below q)"

definition round_half_even :: "rat \<Rightarrow> int" where
  "round_half_even r =
     (let f = \<lfloor>r\<rfloor>; d = r - of_int f
      in if d < 1 / 2 then f
         else if 1 / 2 < d then f + 1
         else if even f then f else f + 1)"

text \<open>
  Rounding a positive rational: 53 bits of precision, least exponent \<open>-1022\<close> (below it
  the spacing stays \<open>2 ^ -1074\<close>, the subnormals), overflow to infinity when the rounded
  value reaches \<open>2 ^ 1024\<close>, that is when the exponent of \<open>q\<close> exceeds 1023 or rounding
  carries out of the last binade.
\<close>

definition round_pos :: "rat \<Rightarrow> jsnum" where
  "round_pos q =
     (let b = floor_log2 q;
          e = max b (- 1022) - 52;
          m = round_half_even (q / pow2 e)
      in if 1023 < b \<or> (b = 1023 \<and> m = 2 ^ 53) then PosInf else Fin (of_int m * pow2 e))"

definition js_negate :: "jsnum \<Rightarrow> jsnum" where
  "js_negate x =
     (case x of
        NaN \<Rightarrow> NaN
      | PosInf \<Rightarrow> NegInf
      | NegInf \<Rightarrow> PosInf
      | NegZero \<Rightarrow> Fin 0
      | Fin q \<Rightarrow> if q = 0 then NegZero else Fin (- q))"

definition round_double :: "rat \<Rightarrow> jsnum" where
  "round_double q =
     (if q = 0 then Fin 0
      else if 0 < q then round_pos q
      else js_negate (round_pos (- q)))"

text \<open>\<^verbatim>\<open>sum + expense.amount\<close>: Number::add.\<close>

fun js_add :: "jsnum \<Rightarrow> jsnum \<Rightarrow> jsnum" where
  "js_add NaN _ = NaN"
| "js_add _ NaN = NaN"
| "js_add PosInf NegInf = NaN"
| "js_add NegInf PosInf = NaN"
| "js_add PosInf _ = PosInf"
| "js_add _ PosInf = PosInf"
| "js_add NegInf _ = NegInf"
| "js_add _ NegInf = NegInf"
| "js_add NegZero NegZero = NegZero"
| "js_add NegZero (Fin b) = Fin b"
| "js_add (Fin a) NegZero = Fin a"
| "js_add (Fin a) (Fin b) = round_double (a + b)"

text \<open>\<^verbatim>\<open>!amount\<close> is true for NaN and both zeros: ToBoolean.\<close>

definition truthy :: "jsnum \<Rightarrow> bool" where
  "truthy x = (case x of NaN \<Rightarrow> False | NegZero \<Rightarrow> False | Fin q \<Rightarrow> q \<noteq> 0 | _ \<Rightarrow> True)"

subsection \<open>\<^verbatim>\<open>parseFloat\<close>\<close>

text \<open>
  A \<open>char\<close> stands for one code unit below 256. \<^verbatim>\<open>parseFloat\<close> drops leading white
  space, takes the longest prefix that is a \<^verbatim>\<open>StrDecimalLiteral\<close> and returns its
  value rounded to a double; with no such prefix it returns NaN. The rounding is to the
  nearest double of the exact decimal value, whatever the number of digits. Each of the
  three functions returns the text of the prefix, its value and the rest of the input.
\<close>

definition is_digit :: "char \<Rightarrow> bool" where
  "is_digit c = (c \<in> set ''0123456789'')"

definition digit_value :: "char \<Rightarrow> nat" where
  "digit_value c = of_char c - 48"

definition digits_value :: "string \<Rightarrow> nat" where
  "digits_value ds = foldl (\<lambda>n c. 10 * n + digit_value c) 0 ds"

definition is_StrWhiteSpaceChar :: "char \<Rightarrow> bool" where
  "is_StrWhiteSpaceChar c =
     (c \<in> set [CHR 0x09, CHR 0x0A, CHR 0x0B, CHR 0x0C, CHR 0x0D, CHR 0x20, CHR 0xA0])"

text \<open>\<^verbatim>\<open>ExponentPart\<close>: \<^verbatim>\<open>e\<close> or \<^verbatim>\<open>E\<close>, an optional sign, at least one digit.\<close>

definition ExponentPart :: "string \<Rightarrow> (string \<times> int \<times> string) option" where
  "ExponentPart s =
     (case s of
        [] \<Rightarrow> None
      | c # t \<Rightarrow>
          if c = CHR ''e'' \<or> c = CHR ''E'' then
            (let sg = (case t of
                         [] \<Rightarrow> []
                       | d # _ \<Rightarrow> if d = CHR ''+'' \<or> d = CHR ''-'' then [d] else []);
                 u = drop (length sg) t;
                 ds = takeWhile is_digit u
             in if ds = [] then None
                else Some (c # sg @ ds,
                           if sg = ''-'' then - int (digits_value ds) else int (digits_value ds),
                           dropWhile is_digit u))
          else None)"

definition StrUnsignedDecimalLiteral :: "string \<Rightarrow> (string \<times> jsnum \<times> string) option" where
  "StrUnsignedDecimalLiteral s =
     (if take 8 s = ''Infinity'' then Some (''Infinity'', PosInf, drop 8 s)
      else
        let d1 = takeWhile is_digit s;
            r1 = dropWhile is_digit s;
            d2 = (case r1 of [] \<Rightarrow> [] | c # t \<Rightarrow> if c = CHR ''.'' then takeWhile is_digit t else []);
            dot = (r1 \<noteq> [] \<and> hd r1 = CHR ''.'' \<and> (d1 \<noteq> [] \<or> d2 \<noteq> []));
            frac = (if dot then CHR ''.'' # d2 else []);
            r2 = drop (length frac) r1;
            m = of_nat (digits_value d1) + of_nat (digits_value d2) / 10 ^ length d2
        in if d1 = [] \<and> \<not> dot then None
           else
             (case ExponentPart r2 of
                None \<Rightarrow> Some (d1 @ frac, round_double m, r2)
              | Some (ex, e, r3) \<Rightarrow> Some (d1 @ frac @ ex, round_double (m * pow10 e), r3)))"

definition StrDecimalLiteral :: "string \<Rightarrow> (string \<times> jsnum \<times> string) option" where
  "StrDecimalLiteral s =
     (case s of
        [] \<Rightarrow> None
      | c # t \<Rightarrow>
          if c = CHR ''+'' then
            map_option (\<lambda>(l, v, r). (c # l, v, r)) (StrUnsignedDecimalLiteral t)
          else if c = CHR ''-'' then
            map_option (\<lambda>(l, v, r). (c # l, js_negate v, r)) (StrUnsignedDecimalLiteral t)
          else StrUnsignedDecimalLiteral s)"

definition parseFloat :: "string \<Rightarrow> jsnum" where
  "parseFloat s =
     (case StrDecimalLiteral (dropWhile is_StrWhiteSpaceChar s) of
        None \<Rightarrow> NaN
      | Some (_, v, _) \<Rightarrow> v)"

subsection \<open>\<^verbatim>\<open>Number.prototype.toFixed\<close>\<close>

fun digits_of :: "nat \<Rightarrow> string" where
  "digits_of n = (if n = 0 then [] else digits_of (n div 10) @ [''0123456789'' ! (n mod 10)])"

declare digits_of.simps [simp del]

definition decimal_repr :: "nat \<Rightarrow> string" where
  "decimal_repr n = (if n = 0 then ''0'' else digits_of n)"

text \<open>
  Number::toString of a finite \<open>a\<close> with \<open>10 ^ 21 \<le> a\<close>, the only finite values
  \<^verbatim>\<open>toFixed\<close> hands to it: the fewest digits \<open>s\<close> (\<open>k\<close> of them) with
  \<open>s * 10 ^ (n - k)\<close> rounding to \<open>a\<close>, the closest such \<open>s\<close>, the even one on a tie;
  printed in exponent notation since \<open>21 < n\<close>. Seventeen digits always identify a
  double, so the search ends by \<open>k = 17\<close>.
\<close>

definition digit_candidates :: "rat \<Rightarrow> nat \<Rightarrow> (nat \<times> nat) list" where
  "digit_candidates a k =
     (let N = length (digits_of (nat \<lfloor>a\<rfloor>))
      in concat (map (\<lambda>n.
           let s0 = nat \<lfloor>a / 10 ^ (n - k)\<rfloor>
           in filter (\<lambda>(n, s). 10 ^ (k - 1) \<le> s \<and> s < 10 ^ k
                        \<and> round_double (of_nat s * 10 ^ (n - k)) = Fin a)
                [(n, s0), (n, s0 + 1)]) [N, N + 1]))"

definition closer :: "rat \<Rightarrow> nat \<Rightarrow> (nat \<times> nat) \<Rightarrow> (nat \<times> nat) \<Rightarrow> (nat \<times> nat)" where
  "closer a k x y =
     (let dx = \<bar>of_nat (snd x) * 10 ^ (fst x - k) - a\<bar>;
          dy = \<bar>of_nat (snd y) * 10 ^ (fst y - k) - a\<bar>
      in if dx < dy \<or> (dx = dy \<and> even (snd x)) then x else y)"

function shortest_digits :: "rat \<Rightarrow> nat \<Rightarrow> (nat \<times> nat \<times> nat)" where
  "shortest_digits a k =
     (if 17 < k then (length (digits_of (nat \<lfloor>a\<rfloor>)), k, 0)
      else
        (case digit_candidates a k of
           [] \<Rightarrow> shortest_digits a (Suc k)
         | c # cs \<Rightarrow> (let (n, s) = foldl (closer a k) c cs in (n, k, s))))"
  by pat_completeness auto
termination
  by (relation "measure (\<lambda>(a, k). 18 - k)") auto

declare shortest_digits.simps [simp del]

definition Number_toString_large :: "rat \<Rightarrow> string" where
  "Number_toString_large a =
     (let (n, k, s) = shortest_digits a 1;
          ds = decimal_repr s
      in (if k = 1 then ds else take 1 ds @ ''.'' @ drop 1 ds) @ ''e+'' @ decimal_repr (n - 1))"

text \<open>
  The digits of \<^verbatim>\<open>x.toFixed(f)\<close> for \<open>0 \<le> a < 10 ^ 21\<close>: the integer \<open>n\<close> nearest to
  \<open>a * 10 ^ f\<close>, the larger one on a tie, padded with zeros to more than \<open>f\<close> digits and
  split by the point.
\<close>

definition fixed_digits :: "nat \<Rightarrow> rat \<Rightarrow> string" where
  "fixed_digits f a =
     (let n = nat \<lfloor>a * 10 ^ f + 1 / 2\<rfloor>;
          m = decimal_repr n
      in if f = 0 then m
         else
           (let m' = (if length m \<le> f then replicate (f + 1 - length m) CHR ''0'' @ m else m);
                k = length m'
            in take (k - f) m' @ ''.'' @ drop (k - f) m'))"

definition toFixed :: "nat \<Rightarrow> jsnum \<Rightarrow> string" where
  "toFixed f x =
     (case x of
        NaN \<Rightarrow> ''NaN''
      | PosInf \<Rightarrow> ''Infinity''
      | NegInf \<Rightarrow> ''-Infinity''
      | NegZero \<Rightarrow> fixed_digits f 0
      | Fin q \<Rightarrow>
          (let s = (if q < 0 then ''-'' else '''');
               a = \<bar>q\<bar>
           in if 10 ^ 21 \<le> a then s @ Number_toString_large a
              else s @ fixed_digits f a))"

subsection \<open>Dates\<close>

text \<open>
  \<^verbatim>\<open>new Date(string)\<close> is modelled on strings of three numbers joined by hyphens, which
  is what a date control holds. The result is a time value, in milliseconds since the
  epoch, or \<open>None\<close> for an Invalid Date (time value NaN).

  \<^item> The date-only form \<^verbatim>\<open>YYYY-MM-DD\<close> of the ECMAScript date-time string format (a year
    of four digits, a month of two, a day of two) is UTC midnight of that day. ECMAScript
    leaves a day past the end of its month to the engine; V8 takes days up to 31 and
    counts on into the next month.
  \<^item> Any other string of three numbers is outside that format and left to the engine. V8
    reads it in local time: as year, month and day when the first number is no day of a
    month, as month, day and year otherwise, with years below 100 moved into 1950 to
    2049. \<open>tza\<close> is the host's offset of local time from UTC at a local time value.
  \<^item> A time value beyond \<open>8.64 * 10 ^ 15\<close> in magnitude is no time value.

  Strings of other shapes are read as Invalid Date; an engine may accept some of them,
  and a date control holds none of them. Time values and their differences are integers
  below \<open>2 ^ 53\<close> in magnitude and so exact in binary64; they are kept as \<open>int\<close>.
\<close>

definition is_leap_year :: "int \<Rightarrow> bool" where
  "is_leap_year y = (y mod 4 = 0 \<and> (y mod 100 \<noteq> 0 \<or> y mod 400 = 0))"

definition days_in_month :: "int \<Rightarrow> int \<Rightarrow> int" where
  "days_in_month y m =
     (if m = 2 then (if is_leap_year y then 29 else 28)
      else if m = 4 \<or> m = 6 \<or> m = 9 \<or> m = 11 then 30 else 31)"

text \<open>Day number of a civil date, day 0 being 1970-01-01.\<close>

definition days_from_civil :: "int \<Rightarrow> int \<Rightarrow> int \<Rightarrow> int" where
  "days_from_civil y m d =
     (let y' = (if m \<le> 2 then y - 1 else y);
          era = y' div 400;
          yoe = y' - era * 400;
          doy = (153 * (if 2 < m then m - 3 else m + 9) + 2) div 5 + d - 1;
          doe = yoe * 365 + yoe div 4 - yoe div 100 + doy
      in era * 146097 + doe - 719468)"

definition civil_from_days :: "int \<Rightarrow> int \<times> int \<times> int" where
  "civil_from_days z0 =
     (let z = z0 + 719468;
          era = z div 146097;
          doe = z - era * 146097;
          yoe = (doe - doe div 1460 + doe div 36524 - doe div 146096) div 365;
          doy = doe - (365 * yoe + yoe div 4 - yoe div 100);
          mp = (5 * doy + 2) div 153;
          d = doy - (153 * mp + 2) div 5 + 1;
          m = (if mp < 10 then mp + 3 else mp - 9);
          y = yoe + era * 400
      in (if m \<le> 2 then y + 1 else y, m, d))"

definition three_numbers :: "string \<Rightarrow> (string \<times> string \<times> string) option" where
  "three_numbers s =
     (let a = takeWhile is_digit s in
      case dropWhile is_digit s of
        [] \<Rightarrow> None
      | c # t \<Rightarrow>
          if c \<noteq> CHR ''-'' \<or> a = [] then None
          else
            (let b = takeWhile is_digit t in
             case dropWhile is_digit t of
               [] \<Rightarrow> None
             | c' # u \<Rightarrow>
                 if c' \<noteq> CHR ''-'' \<or> b = [] \<or> u = [] \<or> \<not> list_all is_digit u then None
                 else Some (a, b, u)))"

definition IsMonth :: "int \<Rightarrow> bool" where
  "IsMonth m = (1 \<le> m \<and> m \<le> 12)"

definition IsDay :: "int \<Rightarrow> bool" where
  "IsDay d = (1 \<le> d \<and> d \<le> 31)"

text \<open>The day number of day \<open>d\<close>, counted from the first of month \<open>m\<close> of year \<open>y\<close>.\<close>

definition MakeDay :: "int \<Rightarrow> int \<Rightarrow> int \<Rightarrow> int" where
  "MakeDay y m d = days_from_civil y m 1 + (d - 1)"

definition TimeClip :: "int \<Rightarrow> int option" where
  "TimeClip t = (if \<bar>t\<bar> \<le> 8640000000000000 then Some t else None)"

definition legacy_date :: "(int \<Rightarrow> int) \<Rightarrow> int \<Rightarrow> int \<Rightarrow> int \<Rightarrow> int option" where
  "legacy_date tza n1 n2 n3 =
     (let (year, month, day) = (if IsDay n1 then (n3, n1, n2) else (n1, n2, n3));
          year' = (if 0 \<le> year \<and> year \<le> 49 then year + 2000
                   else if 50 \<le> year \<and> year \<le> 99 then year + 1900 else year)
      in if IsMonth month \<and> IsDay day
         then (let t = MakeDay year' month day * 86400000 in TimeClip (t - tza t))
         else None)"

definition Date_parse :: "(int \<Rightarrow> int) \<Rightarrow> string \<Rightarrow> int option" where
  "Date_parse tza s =
     (case three_numbers s of
        None \<Rightarrow> None
      | Some (a, b, c) \<Rightarrow>
          (let y = int (digits_value a);
               m = int (digits_value b);
               d = int (digits_value c)
           in if length a = 4 \<and> length b = 2 \<and> length c = 2 \<and> IsMonth m \<and> IsDay d
              then TimeClip (MakeDay y m d * 86400000)
              else legacy_date tza y m d))"

definition pad_zeros :: "nat \<Rightarrow> string \<Rightarrow> string" where
  "pad_zeros w s = replicate (w - length s) CHR ''0'' @ s"

text \<open>
  The value a date control takes from \<^verbatim>\<open>valueAsDate = new Date()\<close>: the UTC date of
  the clock reading (milliseconds since the epoch) as \<^verbatim>\<open>YYYY-MM-DD\<close>.
\<close>

definition date_string :: "nat \<Rightarrow> string" where
  "date_string now =
     (let (y, m, d) = civil_from_days (int now div 86400000)
      in pad_zeros 4 (decimal_repr (nat y)) @ ''-'' @ pad_zeros 2 (decimal_repr (nat m))
         @ ''-'' @ pad_zeros 2 (decimal_repr (nat d)))"

subsection \<open>\<^verbatim>\<open>Array.prototype.sort\<close>\<close>

text \<open>
  The comparator's result is a time difference or NaN (\<open>None\<close>); SortCompare reads NaN
  as \<open>0\<close>. An array of fewer than two elements is returned without a comparison. The
  sort is written out as V8 runs it on an array of fewer than 64 elements:
  \<^verbatim>\<open>CountAndMakeRun\<close> takes the longest run at the start that is non-descending, or
  strictly descending (it is then reversed), and \<^verbatim>\<open>BinaryInsertionSort\<close> puts each
  further element in its place among those before it, found by binary search. A longer
  array V8 cuts into such runs and merges them. With a consistent comparator the sort is
  stable and its result is fixed by that, whatever the length and the algorithm; with
  an inconsistent one ECMAScript leaves the order to the engine, and the model gives V8's
  order up to 63 elements.
\<close>

definition SortCompare :: "('a \<Rightarrow> 'a \<Rightarrow> int option) \<Rightarrow> 'a \<Rightarrow> 'a \<Rightarrow> int" where
  "SortCompare comparefn x y = (case comparefn x y of None \<Rightarrow> 0 | Some v \<Rightarrow> v)"

text \<open>
  The number of elements after \<open>previous\<close> that continue the run: each compared with the
  one before it.
\<close>

fun run_length :: "('a \<Rightarrow> 'a \<Rightarrow> int option) \<Rightarrow> bool \<Rightarrow> 'a \<Rightarrow> 'a list \<Rightarrow> nat" where
  "run_length comparefn descending previous [] = 0"
| "run_length comparefn descending previous (current # rest) =
     (let order = SortCompare comparefn current previous
      in if (if descending then 0 \<le> order else order < 0) then 0
         else Suc (run_length comparefn descending current rest))"

definition CountAndMakeRun :: "('a \<Rightarrow> 'a \<Rightarrow> int option) \<Rightarrow> 'a list \<Rightarrow> 'a list \<times> 'a list" where
  "CountAndMakeRun comparefn xs =
     (case xs of
        [] \<Rightarrow> ([], [])
      | [x] \<Rightarrow> ([x], [])
      | x # y # zs \<Rightarrow>
          (let descending = (SortCompare comparefn y x < 0);
               n = 2 + run_length comparefn descending y zs
           in (if descending then rev (take n xs) else take n xs, drop n xs)))"

text \<open>
  The place of \<open>pivot\<close> among the sorted elements \<open>ys\<close>, between \<open>left\<close> and
  \<open>right\<close>: after every element that does not compare as greater.
\<close>

function insertion_point :: "('a \<Rightarrow> 'a \<Rightarrow> int option) \<Rightarrow> 'a \<Rightarrow> 'a list \<Rightarrow> nat \<Rightarrow> nat \<Rightarrow> nat" where
  "insertion_point comparefn pivot ys left right =
     (if left < right then
        (let mid = left + (right - left) div 2
         in if SortCompare comparefn pivot (ys ! mid) < 0
            then insertion_point comparefn pivot ys left mid
            else insertion_point comparefn pivot ys (mid + 1) right)
      else left)"
  by pat_completeness auto

termination
  by (relation "measure (\<lambda>(c, p, ys, l, r). r - l)") auto

declare insertion_point.simps [simp del]

definition insert_pivot :: "('a \<Rightarrow> 'a \<Rightarrow> int option) \<Rightarrow> 'a list \<Rightarrow> 'a \<Rightarrow> 'a list" where
  "insert_pivot comparefn ys pivot =
     (let k = insertion_point comparefn pivot ys 0 (length ys)
      in take k ys @ pivot # drop k ys)"

definition BinaryInsertionSort :: "('a \<Rightarrow> 'a \<Rightarrow> int option) \<Rightarrow> 'a list \<Rightarrow> 'a list \<Rightarrow> 'a list" where
  "BinaryInsertionSort comparefn start rest = foldl (insert_pivot comparefn) start rest"

definition Array_sort :: "('a \<Rightarrow> 'a \<Rightarrow> int option) \<Rightarrow> 'a list \<Rightarrow> 'a list" where
  "Array_sort comparefn xs =
     (case CountAndMakeRun comparefn xs of (start, rest) \<Rightarrow> BinaryInsertionSort comparefn start rest)"

subsection \<open>The document\<close>

text \<open>
  The hosting page is not part of the script. It enters as the list \<open>elems\<close> of its
  elements in tree order, each with the attributes the script reads or writes; an element
  without an id has \<open>el_id = []\<close>. What the list container holds is kept apart, in
  \<open>list_children\<close>: the placeholder, or one entry per expense with the four values the
  template interpolates (the date as the time value handed to \<^verbatim>\<open>toLocaleDateString\<close>).
  Lookups by id range over \<open>elems\<close>.
\<close>

record element =
  el_id :: string
  classList :: "string list"
  dataset_page :: "string option"
  textContent :: string
  backgroundColor :: string

datatype list_child =
    EmptyStateEl
  | CreatedP string string string
  | ExpenseEl string string "int option" string

record expense =
  expense_id :: nat
  description :: string
  amount :: jsnum
  category :: string
  date :: string

record form_values =
  description_value :: string
  amount_value :: string
  category_value :: string
  date_value :: string

text \<open>
  The control with id \<^verbatim>\<open>date\<close> is the one the script sets through
  \<^verbatim>\<open>valueAsDate\<close>, a date control. Such a control holds what is entered into it only
  if that is a valid date string of the HTML standard (a year of four or more digits that
  is not zero, a month and a day of that month, as \<^verbatim>\<open>YYYY-MM-DD\<close>) and is empty
  otherwise. On a document without that element nothing is known of the form's date field,
  and the entered text is taken as it is.
\<close>

definition valid_date_string :: "string \<Rightarrow> bool" where
  "valid_date_string s =
     (case three_numbers s of
        None \<Rightarrow> False
      | Some (a, b, c) \<Rightarrow>
          (let y = int (digits_value a);
               m = int (digits_value b);
               d = int (digits_value c)
           in 4 \<le> length a \<and> 0 < y \<and> length b = 2 \<and> length c = 2
              \<and> 1 \<le> m \<and> m \<le> 12 \<and> 1 \<le> d \<and> d \<le> days_in_month y m))"

definition date_control_value :: "string \<Rightarrow> string" where
  "date_control_value s = (if valid_date_string s then s else [])"

text \<open>
  The state: the script's \<^verbatim>\<open>expenses\<close> array, the document, the current values of the
  form's four controls and the values \<^verbatim>\<open>reset()\<close> restores, the number of
  \<^verbatim>\<open>setTimeout\<close> callbacks not yet run, and the host's time zone: the offset of local
  time from UTC, in milliseconds, at a local time value. Nothing changes the zone.
\<close>

record state =
  expenses :: "expense list"
  elems :: "element list"
  list_children :: "list_child list"
  form :: form_values
  form_defaults :: form_values
  pending_hides :: nat
  LocalTZA :: "int \<Rightarrow> int"

text \<open>
  The script's constants, looked up once when the document is ready; \<open>None\<close> is
  \<^verbatim>\<open>null\<close>. \<^verbatim>\<open>emptyStateEl\<close> is only ever tested for \<^verbatim>\<open>null\<close> and moved in and
  out of the list, so it is kept as whether it was found.
\<close>

record refs =
  navLinks :: "nat list"
  pages :: "nat list"
  totalExpenditureEl :: "nat option"
  expenseListEl :: "nat option"
  emptyStateEl :: bool
  messageBox :: "nat option"
  dateInput :: "nat option"

definition getElementById :: "string \<Rightarrow> element list \<Rightarrow> nat option" where
  "getElementById i es =
     (if i = [] then None else find (\<lambda>n. el_id (es ! n) = i) [0..<length es])"

definition querySelectorAll_class :: "string \<Rightarrow> element list \<Rightarrow> nat list" where
  "querySelectorAll_class c es = filter (\<lambda>n. c \<in> set (classList (es ! n))) [0..<length es]"

definition classList_add :: "string list \<Rightarrow> element \<Rightarrow> element" where
  "classList_add tokens e =
     e\<lparr>classList := foldl (\<lambda>cs t. if t \<in> set cs then cs else cs @ [t]) (classList e) tokens\<rparr>"

definition classList_remove :: "string list \<Rightarrow> element \<Rightarrow> element" where
  "classList_remove tokens e = e\<lparr>classList := filter (\<lambda>c. c \<notin> set tokens) (classList e)\<rparr>"

text \<open>The values the form's controls hold once the user has entered \<open>v\<close>.\<close>

definition entered :: "refs \<Rightarrow> form_values \<Rightarrow> form_values" where
  "entered r v =
     (if dateInput r = None then v else v\<lparr>date_value := date_control_value (date_value v)\<rparr>)"

definition script_refs :: "element list \<Rightarrow> refs" where
  "script_refs es =
     \<lparr>navLinks = querySelectorAll_class ''nav-link'' es,
      pages = querySelectorAll_class ''page'' es,
      totalExpenditureEl = getElementById ''total-expenditure'' es,
      expenseListEl = getElementById ''expense-list'' es,
      emptyStateEl = (getElementById ''empty-state'' es \<noteq> None),
      messageBox = getElementById ''message-box'' es,
      dateInput = getElementById ''date'' es\<rparr>"

subsection \<open>The script's functions\<close>

text \<open>
  A function either returns or stops at a \<^verbatim>\<open>TypeError\<close> (a property read on
  \<^verbatim>\<open>null\<close>); in both cases the state holds what was written up to that point.
\<close>

datatype outcome = Returned | TypeError

text \<open>
  \<^verbatim>\<open>showMessage\<close> sets the text, adds the class \<^verbatim>\<open>show\<close> and schedules its removal;
  \<open>hide_timeout\<close> is that callback, run two seconds later.
\<close>

definition showMessage :: "refs \<Rightarrow> string \<Rightarrow> state \<Rightarrow> outcome \<times> state" where
  "showMessage r message st =
     (case messageBox r of
        None \<Rightarrow> (TypeError, st)
      | Some mb \<Rightarrow>
          (Returned,
           st\<lparr>elems := (elems st)
                 [mb := classList_add [''show''] ((elems st ! mb)\<lparr>textContent := message\<rparr>)],
              pending_hides := Suc (pending_hides st)\<rparr>))"

definition hide_timeout :: "refs \<Rightarrow> state \<Rightarrow> state" where
  "hide_timeout r st =
     (case messageBox r of
        None \<Rightarrow> st
      | Some mb \<Rightarrow>
          st\<lparr>elems := (elems st)[mb := classList_remove [''show''] (elems st ! mb)],
             pending_hides := pending_hides st - 1\<rparr>)"

text \<open>
  \<^verbatim>\<open>setDefaultDate\<close>: the element with id \<^verbatim>\<open>date\<close> is taken to be the form's date
  control; \<open>today\<close> is the clock reading of \<^verbatim>\<open>new Date()\<close>.
\<close>

definition setDefaultDate :: "refs \<Rightarrow> nat \<Rightarrow> state \<Rightarrow> state" where
  "setDefaultDate r today st =
     (if dateInput r \<noteq> None then st\<lparr>form := (form st)\<lparr>date_value := date_string today\<rparr>\<rparr>
      else st)"

text \<open>
  \<^verbatim>\<open>showPage\<close>. The argument is a string or, from a link without a \<^verbatim>\<open>data-page\<close>
  attribute, \<^verbatim>\<open>undefined\<close> (\<open>None\<close>), which \<^verbatim>\<open>getElementById\<close> reads as the string
  \<^verbatim>\<open>"undefined"\<close> and \<^verbatim>\<open>===\<close> compares as itself.
\<close>

definition showPage :: "refs \<Rightarrow> string option \<Rightarrow> state \<Rightarrow> outcome \<times> state" where
  "showPage r pageId st =
     (let es1 = foldl (\<lambda>es page. es[page := classList_remove [''active''] (es ! page)])
                  (elems st) (pages r)
      in case getElementById (case pageId of None \<Rightarrow> ''undefined'' | Some p \<Rightarrow> p) es1 of
           None \<Rightarrow> (TypeError, st\<lparr>elems := es1\<rparr>)
         | Some target \<Rightarrow>
             (let es2 = es1[target := classList_add [''active''] (es1 ! target)];
                  es3 = foldl (\<lambda>es link.
                           es[link :=
                                (if dataset_page (es ! link) = pageId
                                 then classList_add [''text-indigo-600'', ''bg-indigo-50'']
                                 else classList_remove [''text-indigo-600'', ''bg-indigo-50''])
                                (es ! link)])
                          es2 (navLinks r)
              in (Returned, st\<lparr>elems := es3\<rparr>)))"

text \<open>The comparator of \<^verbatim>\<open>updateUI\<close>: \<^verbatim>\<open>new Date(b.date) - new Date(a.date)\<close>.\<close>

definition by_date_desc :: "(int \<Rightarrow> int) \<Rightarrow> expense \<Rightarrow> expense \<Rightarrow> int option" where
  "by_date_desc tza a b =
     (case (Date_parse tza (date b), Date_parse tza (date a)) of
        (Some tb, Some ta) \<Rightarrow> Some (tb - ta)
      | _ \<Rightarrow> None)"

definition expense_element :: "(int \<Rightarrow> int) \<Rightarrow> expense \<Rightarrow> list_child" where
  "expense_element tza e =
     ExpenseEl (description e) (category e) (Date_parse tza (date e))
       (''$'' @ toFixed 2 (amount e))"

definition updateUI :: "refs \<Rightarrow> state \<Rightarrow> outcome \<times> state" where
  "updateUI r st =
     (let total = foldl (\<lambda>sum e. js_add sum (amount e)) (Fin 0) (expenses st)
      in case totalExpenditureEl r of
           None \<Rightarrow> (TypeError, st)
         | Some t \<Rightarrow>
             (let st1 = st\<lparr>elems := (elems st)
                            [t := (elems st ! t)\<lparr>textContent := ''$'' @ toFixed 2 total\<rparr>]\<rparr>
              in case expenseListEl r of
                   None \<Rightarrow> (TypeError, st1)
                 | Some _ \<Rightarrow>
                     (let st2 = st1\<lparr>list_children := []\<rparr>
                      in if length (expenses st2) = 0 then
                           (if emptyStateEl r then
                              (Returned,
                               st2\<lparr>list_children := list_children st2 @ [EmptyStateEl]\<rparr>)
                            else
                              (Returned,
                               st2\<lparr>list_children := list_children st2 @
                                  [CreatedP ''empty-state'' ''text-slate-500 text-center py-4''
                                     ''You have no expenses logged yet.'']\<rparr>))
                         else
                           (let st3 = (if emptyStateEl r \<and> EmptyStateEl \<in> set (list_children st2)
                                       then st2\<lparr>list_children :=
                                                  removeAll EmptyStateEl (list_children st2)\<rparr>
                                       else st2);
                                sortedExpenses =
                                  Array_sort (by_date_desc (LocalTZA st3)) (expenses st3)
                            in (Returned,
                                foldl (\<lambda>s e. s\<lparr>list_children :=
                                                  list_children s
                                                  @ [expense_element (LocalTZA st3) e]\<rparr>)
                                  st3 sortedExpenses)))))"

text \<open>
  \<^verbatim>\<open>handleFormSubmit\<close>; \<open>now\<close> is the reading of \<^verbatim>\<open>Date.now()\<close> and \<open>today\<close> that
  of \<^verbatim>\<open>new Date()\<close> in \<^verbatim>\<open>setDefaultDate\<close>.
\<close>

definition set_backgroundColor :: "nat \<Rightarrow> string \<Rightarrow> state \<Rightarrow> state" where
  "set_backgroundColor n c st = st\<lparr>elems := (elems st)[n := (elems st ! n)\<lparr>backgroundColor := c\<rparr>]\<rparr>"

definition handleFormSubmit :: "refs \<Rightarrow> nat \<Rightarrow> nat \<Rightarrow> state \<Rightarrow> outcome \<times> state" where
  "handleFormSubmit r now today st =
     (let description = description_value (form st);
          amount = parseFloat (amount_value (form st));
          category = category_value (form st);
          date = date_value (form st)
      in if description = [] \<or> \<not> truthy amount \<or> date = [] then
           (case showMessage r ''Please fill in all fields.'' st of
              (TypeError, st1) \<Rightarrow> (TypeError, st1)
            | (Returned, st1) \<Rightarrow>
                (case messageBox r of
                   None \<Rightarrow> (TypeError, st1)
                 | Some mb \<Rightarrow> (Returned, set_backgroundColor mb ''#ef4444'' st1)))
         else
           (let newExpense = \<lparr>expense_id = now, description = description, amount = amount,
                               category = category, date = date\<rparr>;
                st1 = st\<lparr>expenses := expenses st @ [newExpense]\<rparr>;
                st2 = st1\<lparr>form := form_defaults st1\<rparr>;
                st3 = setDefaultDate r today st2
            in case updateUI r st3 of
                 (TypeError, st4) \<Rightarrow> (TypeError, st4)
               | (Returned, st4) \<Rightarrow>
                   (case messageBox r of
                      None \<Rightarrow> (TypeError, st4)
                    | Some mb \<Rightarrow>
                        (case showMessage r ''Expense added successfully!''
                                (set_backgroundColor mb ''#22c55e'' st4) of
                           (TypeError, st5) \<Rightarrow> (TypeError, st5)
                         | (Returned, st5) \<Rightarrow> showPage r (Some ''dashboard-page'') st5))))"

text \<open>
  The body of the \<^verbatim>\<open>DOMContentLoaded\<close> listener, on the document as loaded: the
  array starts empty, the constants are looked up, then \<^verbatim>\<open>setDefaultDate\<close>,
  \<^verbatim>\<open>showPage('logger-page')\<close> and \<^verbatim>\<open>updateUI\<close> run.
\<close>

definition DOMContentLoaded :: "nat \<Rightarrow> state \<Rightarrow> outcome \<times> state" where
  "DOMContentLoaded today doc =
     (let r = script_refs (elems doc);
          st0 = doc\<lparr>expenses := []\<rparr>;
          st1 = setDefaultDate r today st0
      in case showPage r (Some ''logger-page'') st1 of
           (TypeError, st2) \<Rightarrow> (TypeError, st2)
         | (Returned, st2) \<Rightarrow> updateUI r st2)"

text \<open>
  A session is the events that follow: the user fills the form and submits it, clicks a
  navigation link (the \<open>l\<close>-th of \<^verbatim>\<open>navLinks\<close>), or a scheduled timeout runs. An error
  thrown in a listener ends that listener only. A \<open>Submit\<close> is a submit event delivered
  to the listener of the form; it carries what the user entered in the four fields and the
  readings of \<^verbatim>\<open>Date.now()\<close> and of \<^verbatim>\<open>new Date()\<close> in the handler, in milliseconds.
\<close>

datatype event = Submit form_values nat nat | NavClick nat | Timeout

definition step :: "refs \<Rightarrow> state \<Rightarrow> event \<Rightarrow> state" where
  "step r st ev =
     (case ev of
        Submit v now today \<Rightarrow> snd (handleFormSubmit r now today (st\<lparr>form := entered r v\<rparr>))
      | NavClick l \<Rightarrow>
          (if l < length (navLinks r)
           then snd (showPage r (dataset_page (elems st ! (navLinks r ! l))) st) else st)
      | Timeout \<Rightarrow> (if 0 < pending_hides st then hide_timeout r st else st))"

definition run :: "refs \<Rightarrow> state \<Rightarrow> event list \<Rightarrow> state" where
  "run r st evs = foldl (step r) st evs"

section \<open>Properties\<close>

subsection \<open>Vocabulary of the properties, and an example document\<close>

text \<open>
  A submission is valid when it passes the check of \<^verbatim>\<open>handleFormSubmit\<close>. A child of
  the list container is the placeholder when it is the document's element
  \<^verbatim>\<open>empty-state\<close> or a paragraph with that id, the class and the text that
  \<^verbatim>\<open>updateUI\<close> gives the one it creates.
\<close>

definition valid_submission :: "form_values \<Rightarrow> bool" where
  "valid_submission v =
     (description_value v \<noteq> [] \<and> truthy (parseFloat (amount_value v)) \<and> date_value v \<noteq> [])"

definition is_placeholder :: "list_child \<Rightarrow> bool" where
  "is_placeholder c =
     (case c of
        EmptyStateEl \<Rightarrow> True
      | CreatedP i cls txt \<Rightarrow>
          i = ''empty-state'' \<and> cls = ''text-slate-500 text-center py-4''
          \<and> txt = ''You have no expenses logged yet.''
      | ExpenseEl _ _ _ _ \<Rightarrow> False)"

text \<open>
  The numeric prefix of an amount, as a decimal numeral taken apart: an optional sign, the
  digits before and after an optional point (at least one digit in all), and an optional
  exponent of \<^verbatim>\<open>e\<close> or \<^verbatim>\<open>E\<close>, an optional sign and digits. \<open>numeral_value\<close> is the
  Number it denotes: the decimal value of its digits, scaled by the exponent and rounded
  once. A character is non-numeric when it can continue no numeral.
\<close>

record numeral =
  sign_text :: string
  int_digits :: string
  has_point :: bool
  frac_digits :: string
  exp_part :: "(char \<times> string \<times> string) option"





text \<open>
  A page with two navigation links, two views, the form, the date control, the total, the
  list container, the placeholder and the message box.
\<close>

definition example_element :: "string \<Rightarrow> string list \<Rightarrow> string option \<Rightarrow> element" where
  "example_element i cs p =
     \<lparr>el_id = i, classList = cs, dataset_page = p, textContent = [], backgroundColor = []\<rparr>"

definition example_values :: "string \<Rightarrow> string \<Rightarrow> string \<Rightarrow> string \<Rightarrow> form_values" where
  "example_values d a c t =
     \<lparr>description_value = d, amount_value = a, category_value = c, date_value = t\<rparr>"

definition example_document :: state where
  "example_document =
     \<lparr>expenses = [],
      elems =
        [example_element [] [''nav-link''] (Some ''logger-page''),
         example_element [] [''nav-link''] (Some ''dashboard-page''),
         example_element ''logger-page'' [''page'', ''active''] None,
         example_element ''dashboard-page'' [''page''] None,
         example_element ''expense-form'' [] None,
         example_element ''date'' [] None,
         example_element ''total-expenditure'' [] None,
         example_element ''expense-list'' [] None,
         example_element ''empty-state'' [] None,
         example_element ''message-box'' [] None],
      list_children = [EmptyStateEl],
      form = example_values [] [] ''food'' [],
      form_defaults = example_values [] [] ''food'' [],
      pending_hides = 0,
      LocalTZA = (\<lambda>t. 0)\<rparr>"

definition example_refs :: refs where
  "example_refs = script_refs (elems example_document)"

text \<open>The example document with the form filled in.\<close>

definition example_state :: "form_values \<Rightarrow> state" where
  "example_state v = example_document\<lparr>form := v\<rparr>"

text \<open>
  A view is active when its class list has \<^verbatim>\<open>active\<close>; a navigation link is marked
  active when it has both highlight classes. \<open>refs_in_range\<close> says that the views and
  links the script holds are elements of the document.
\<close>

definition is_active :: "element \<Rightarrow> bool" where
  "is_active e = (''active'' \<in> set (classList e))"

definition marked_active :: "element \<Rightarrow> bool" where
  "marked_active e =
     (''text-indigo-600'' \<in> set (classList e) \<and> ''bg-indigo-50'' \<in> set (classList e))"

definition refs_in_range :: "refs \<Rightarrow> state \<Rightarrow> bool" where
  "refs_in_range r st =
     (list_all (\<lambda>n. n < length (elems st)) (pages r)
      \<and> list_all (\<lambda>n. n < length (elems st)) (navLinks r))"

text \<open>The two loops of \<^verbatim>\<open>showPage\<close>, named: the first as a whole, the second by its body.\<close>

definition deactivate_pages :: "refs \<Rightarrow> element list \<Rightarrow> element list" where
  "deactivate_pages r es = foldl (\<lambda>es page. es[page := classList_remove [''active''] (es ! page)]) es (pages r)"

definition mark_link :: "string option \<Rightarrow> element \<Rightarrow> element" where
  "mark_link pageId e = (if dataset_page e = pageId
                                 then classList_add [''text-indigo-600'', ''bg-indigo-50'']
                                 else classList_remove [''text-indigo-600'', ''bg-indigo-50'']) e"

text \<open>
  A session: the listener runs on the loaded document, then the events follow. The clock
  readings at which a sequence of events submits valid forms are \<open>accepted_readings\<close>;
  \<open>accepted\<close> says that an event is such a submission.
\<close>

definition session :: "nat \<Rightarrow> state \<Rightarrow> event list \<Rightarrow> state" where
  "session today doc evs = run (script_refs (elems doc)) (snd (DOMContentLoaded today doc)) evs"

definition accepted :: "refs \<Rightarrow> event \<Rightarrow> bool" where
  "accepted r ev =
     (case ev of Submit v now today \<Rightarrow> valid_submission (entered r v) | _ \<Rightarrow> False)"

definition accepted_readings :: "refs \<Rightarrow> event list \<Rightarrow> nat list" where
  "accepted_readings r evs =
     concat (map (\<lambda>ev. case ev of
                          Submit v now today \<Rightarrow>
                            if valid_submission (entered r v) then [now] else []
                        | _ \<Rightarrow> []) evs)"

text \<open>A Number greater than zero.\<close>

definition is_positive :: "jsnum \<Rightarrow> bool" where
  "is_positive x = (case x of PosInf \<Rightarrow> True | Fin q \<Rightarrow> 0 < q | _ \<Rightarrow> False)"

definition example_session :: "event list \<Rightarrow> state" where
  "example_session evs = session 1704880000000 example_document evs"

text \<open>
  The \<^verbatim>\<open>reduce\<close> of \<^verbatim>\<open>updateUI\<close>, named; the amount a submission submits; and a
  text with exactly two digits after the point.
\<close>

definition expenses_total :: "expense list \<Rightarrow> jsnum" where
  "expenses_total xs = foldl (\<lambda>sum e. js_add sum (amount e)) (Fin 0) xs"

text \<open>The element \<open>t\<close> shows the total of the array.\<close>

definition total_shown :: "nat \<Rightarrow> state \<Rightarrow> bool" where
  "total_shown t st \<longleftrightarrow>
     textContent (elems st ! t) = ''$'' @ toFixed 2 (expenses_total (expenses st))"

definition submitted_amount :: "event \<Rightarrow> jsnum" where
  "submitted_amount ev = (case ev of Submit v now today \<Rightarrow> parseFloat (amount_value v) | _ \<Rightarrow> NaN)"

definition two_decimals :: "string \<Rightarrow> bool" where
  "two_decimals s =
     (let b = (if s \<noteq> [] \<and> hd s = CHR ''-'' then tl s else s);
          n = length b
      in 4 \<le> n \<and> b ! (n - 3) = CHR ''.'' \<and> list_all is_digit (take (n - 3) b)
         \<and> list_all is_digit (drop (n - 2) b))"

text \<open>
  The total as the claim words it: the exact sum of the stored amounts, written with two
  decimals after the currency symbol. It is defined when every amount is finite.
\<close>

definition value_of :: "jsnum \<Rightarrow> rat" where
  "value_of x = (case x of Fin q \<Rightarrow> q | _ \<Rightarrow> 0)"

definition is_finite :: "jsnum \<Rightarrow> bool" where
  "is_finite x = (case x of Fin q \<Rightarrow> True | NegZero \<Rightarrow> True | _ \<Rightarrow> False)"

definition exact_total_text :: "expense list \<Rightarrow> string option" where
  "exact_total_text xs =
     (if list_all (\<lambda>e. is_finite (amount e)) xs
      then (let q = sum_list (map (\<lambda>e. value_of (amount e)) xs)
            in Some (''$'' @ (if q < 0 then ''-'' else '''') @ fixed_digits 2 \<bar>q\<bar>))
      else None)"

text \<open>
  The time value an entry of the list shows, and a list whose entries are in descending
  order of it; an entry whose date did not parse constrains nothing. A record is earlier
  than another when both dates parse and its time value is smaller; \<open>time_of\<close> is the
  time value of a record whose date parses. \<open>tza\<close> is the host's time zone.
\<close>

definition shown_time :: "list_child \<Rightarrow> int option" where
  "shown_time c = (case c of ExpenseEl _ _ t _ \<Rightarrow> t | _ \<Rightarrow> None)"

definition newest_first :: "list_child list \<Rightarrow> bool" where
  "newest_first cs =
     sorted_wrt (\<lambda>a b. case (shown_time a, shown_time b) of
                          (Some x, Some y) \<Rightarrow> y \<le> x
                        | _ \<Rightarrow> True) cs"

definition earlier :: "(int \<Rightarrow> int) \<Rightarrow> expense \<Rightarrow> expense \<Rightarrow> bool" where
  "earlier tza a b =
     (case (Date_parse tza (date a), Date_parse tza (date b)) of
        (Some ta, Some tb) \<Rightarrow> ta < tb
      | _ \<Rightarrow> False)"

definition time_of :: "(int \<Rightarrow> int) \<Rightarrow> expense \<Rightarrow> int" where
  "time_of tza e = (case Date_parse tza (date e) of Some t \<Rightarrow> t | None \<Rightarrow> 0)"

text \<open>
  The list shows the array: with records in the array, its children are their entries in
  sorted order. A submission has a year of four digits when the entered date is no longer
  than \<^verbatim>\<open>YYYY-MM-DD\<close>.
\<close>

definition list_rendered :: "state \<Rightarrow> bool" where
  "list_rendered st \<longleftrightarrow>
     (expenses st \<noteq> [] \<longrightarrow>
        list_children st = map (expense_element (LocalTZA st))
                             (Array_sort (by_date_desc (LocalTZA st)) (expenses st)))"

definition four_digit_years :: "event \<Rightarrow> bool" where
  "four_digit_years ev =
     (case ev of Submit v now today \<Rightarrow> length (date_value v) \<le> 10 | _ \<Rightarrow> True)"

text \<open>A record of the example store.\<close>

definition example_expense :: "nat \<Rightarrow> string \<Rightarrow> string \<Rightarrow> expense" where
  "example_expense n d t =
     \<lparr>expense_id = n, description = d, amount = Fin 1, category = ''food'', date = t\<rparr>"

subsection \<open>Auxiliary facts\<close>

lemma foldl_append_children:
  "foldl (\<lambda>s e. s\<lparr>list_children := list_children s @ [f e]\<rparr>) st xs
     = st\<lparr>list_children := list_children st @ map f xs\<rparr>"
  by (induction xs arbitrary: st) simp_all

lemma map_foldl_update:
  assumes "\<And>e. g (F e) = g e"
  shows "map g (foldl (\<lambda>es p. es[p := F (es ! p)]) es ps) = map g es"
proof (induction ps arbitrary: es)
  case Nil
  show ?case by simp
next
  case (Cons p ps)
  have "map g (es[p := F (es ! p)]) = map g es"
  proof (cases "p < length es")
    case True
    then show ?thesis by (simp add: map_update assms list_update_same_conv)
  next
    case False
    then show ?thesis by (simp add: list_update_beyond)
  qed
  with Cons.IH [of "es[p := F (es ! p)]"] show ?case by simp
qed

lemma length_foldl_update:
  "length (foldl (\<lambda>es p. es[p := F (es ! p)]) es ps) = length es"
  by (induction ps arbitrary: es) simp_all

lemma nth_foldl_update:
  assumes "\<And>e. F (F e) = F e" and "j < length es"
  shows "foldl (\<lambda>es p. es[p := F (es ! p)]) es ps ! j = (if j \<in> set ps then F (es ! j) else es ! j)"
  using assms(2)
proof (induction ps arbitrary: es)
  case Nil
  show ?case by simp
next
  case (Cons p ps)
  let ?es = "es[p := F (es ! p)]"
  have len: "j < length ?es" using Cons.prems by simp
  have "foldl (\<lambda>es p. es[p := F (es ! p)]) ?es ps ! j = (if j \<in> set ps then F (?es ! j) else ?es ! j)"
    by (rule Cons.IH [OF len])
  then show ?case using Cons.prems
    by (cases "j = p") (simp_all add: assms(1))
qed

lemma updateUI_expenses: "updateUI r st = (out, st') \<Longrightarrow> expenses st' = expenses st"
  by (auto simp: updateUI_def Let_def foldl_append_children split: option.splits if_splits)

lemma showMessage_expenses: "showMessage r m st = (out, st') \<Longrightarrow> expenses st' = expenses st"
  by (auto simp: showMessage_def split: option.splits)

lemma showPage_expenses: "showPage r p st = (out, st') \<Longrightarrow> expenses st' = expenses st"
  by (auto simp: showPage_def Let_def split: option.splits)

lemma showPage_expenses_snd: "expenses (snd (showPage r p st)) = expenses st"
  by (cases "showPage r p st") (simp add: showPage_expenses)

lemma showPage_form_snd: "form (snd (showPage r p st)) = form st"
  by (simp add: showPage_def Let_def split: option.splits)

lemma updateUI_form: "updateUI r st = (out, st') \<Longrightarrow> form st' = form st"
  by (auto simp: updateUI_def Let_def foldl_append_children split: option.splits if_splits)

lemma showMessage_form: "showMessage r m st = (out, st') \<Longrightarrow> form st' = form st"
  by (auto simp: showMessage_def split: option.splits)

lemma showPage_form: "showPage r p st = (out, st') \<Longrightarrow> form st' = form st"
  by (auto simp: showPage_def Let_def split: option.splits)

lemma handleFormSubmit_invalid:
  assumes "\<not> valid_submission (form st)"
  shows "expenses (snd (handleFormSubmit r now today st)) = expenses st"
    and "form (snd (handleFormSubmit r now today st)) = form st"
  using assms
  by (auto simp: handleFormSubmit_def valid_submission_def set_backgroundColor_def
           split: prod.splits outcome.splits option.splits
           dest: showMessage_expenses showMessage_form)

lemma handleFormSubmit_valid:
  assumes "valid_submission (form st)"
  shows "expenses (snd (handleFormSubmit r now today st)) =
     expenses st @ [\<lparr>expense_id = now, description = description_value (form st),
                           amount = parseFloat (amount_value (form st)),
                           category = category_value (form st), date = date_value (form st)\<rparr>]"
  using assms
  by (auto simp: handleFormSubmit_def valid_submission_def set_backgroundColor_def Let_def
              setDefaultDate_def showPage_expenses_snd
           split: prod.splits outcome.splits option.splits
           dest!: showMessage_expenses updateUI_expenses showPage_expenses)

lemma example_refs_eq: "example_refs = \<lparr>navLinks = [0, 1], pages = [2, 3], totalExpenditureEl = Some 6,
    expenseListEl = Some 7, emptyStateEl = True, messageBox = Some 9,
    dateInput = Some 5\<rparr>"
  by code_simp

lemma getElementById_cong:
  assumes "map el_id es = map el_id es'"
  shows "getElementById i es = getElementById i es'"
proof -
  have len: "length es = length es'" using assms by (rule map_eq_imp_length_eq)
  have "\<And>n. n < length es' \<Longrightarrow> el_id (es ! n) = el_id (es' ! n)"
    using assms len by (metis nth_map)
  then have "find (\<lambda>n. el_id (es ! n) = i) [0..<length es'] = find (\<lambda>n. el_id (es' ! n) = i) [0..<length es']"
    by (intro find_cong) auto
  then show ?thesis by (simp add: getElementById_def len)
qed

lemma getElementById_Some:
  "getElementById i es = Some n \<Longrightarrow> n < length es \<and> el_id (es ! n) = i \<and> i \<noteq> []"
  by (auto simp: getElementById_def find_Some_iff split: if_splits)

lemma classList_remove_idem: "classList_remove ts (classList_remove ts e) = classList_remove ts e"
  by (simp add: classList_remove_def)

lemma el_id_classList_remove: "el_id (classList_remove ts e) = el_id e"
  by (simp add: classList_remove_def)

lemma el_id_classList_add: "el_id (classList_add ts e) = el_id e"
  by (simp add: classList_add_def)

lemma set_classList_add:
  "set (classList (classList_add ts e)) = set (classList e) \<union> set ts"
proof -
  have "set (foldl (\<lambda>cs t. if t \<in> set cs then cs else cs @ [t]) cs ts) = set cs \<union> set ts" for cs
    by (induction ts arbitrary: cs) auto
  then show ?thesis by (simp add: classList_add_def)
qed

lemma set_classList_remove:
  "set (classList (classList_remove ts e)) = set (classList e) - set ts"
  by (auto simp: classList_remove_def)

lemma deactivate_pages_nth:
  "j < length es \<Longrightarrow> deactivate_pages r es ! j =
     (if j \<in> set (pages r) then classList_remove [''active''] (es ! j) else es ! j)"
  unfolding deactivate_pages_def
  by (rule nth_foldl_update) (simp_all add: classList_remove_idem)

lemma deactivate_pages_length: "length (deactivate_pages r es) = length es"
  by (simp add: deactivate_pages_def length_foldl_update)

lemma deactivate_pages_ids: "map el_id (deactivate_pages r es) = map el_id es"
  unfolding deactivate_pages_def by (rule map_foldl_update) (simp add: el_id_classList_remove)

lemma showPage_no_element:
  assumes "getElementById (case pageId of None \<Rightarrow> ''undefined'' | Some p \<Rightarrow> p) (elems st) = None"
  shows "showPage r pageId st = (TypeError, st\<lparr>elems := deactivate_pages r (elems st)\<rparr>)"
proof -
  have "getElementById (case pageId of None \<Rightarrow> ''undefined'' | Some p \<Rightarrow> p) (deactivate_pages r (elems st)) = None"
    using assms getElementById_cong [OF deactivate_pages_ids] by simp
  then show ?thesis
    by (simp add: showPage_def Let_def deactivate_pages_def)
qed

lemma showPage_element:
  assumes "getElementById (case pageId of None \<Rightarrow> ''undefined'' | Some p \<Rightarrow> p) (elems st) = Some i"
  shows "showPage r pageId st =
     (Returned, st\<lparr>elems := foldl (\<lambda>es link. es[link := mark_link pageId (es ! link)])
         ((deactivate_pages r (elems st))[i := classList_add [''active''] (deactivate_pages r (elems st) ! i)])
         (navLinks r)\<rparr>)"
proof -
  have "getElementById (case pageId of None \<Rightarrow> ''undefined'' | Some p \<Rightarrow> p) (deactivate_pages r (elems st)) = Some i"
    using assms getElementById_cong [OF deactivate_pages_ids] by simp
  then show ?thesis
    by (simp add: showPage_def Let_def deactivate_pages_def mark_link_def)
qed

lemma add_tokens_absorb:
  "set ts \<subseteq> set cs \<Longrightarrow> foldl (\<lambda>cs t. if t \<in> set cs then cs else cs @ [t]) cs ts = cs"
  by (induction ts arbitrary: cs) auto

lemma set_add_tokens:
  "set (foldl (\<lambda>cs t. if t \<in> set cs then cs else cs @ [t]) cs ts) = set cs \<union> set ts"
  by (induction ts arbitrary: cs) auto

lemma classList_add_idem: "classList_add ts (classList_add ts e) = classList_add ts e"
  by (simp add: classList_add_def add_tokens_absorb set_add_tokens)

lemma dataset_page_mark_link: "dataset_page (mark_link p e) = dataset_page e"
  by (simp add: mark_link_def classList_add_def classList_remove_def)

lemma mark_link_idem: "mark_link p (mark_link p e) = mark_link p e"
proof (cases "dataset_page e = p")
  case True
  then have "mark_link p e = classList_add [''text-indigo-600'', ''bg-indigo-50''] e"
    by (simp add: mark_link_def)
  moreover have "dataset_page (mark_link p e) = p"
    using True by (simp add: dataset_page_mark_link)
  ultimately show ?thesis
    using classList_add_idem [of "[''text-indigo-600'', ''bg-indigo-50'']" e]
    by (simp add: mark_link_def)
next
  case False
  then have "mark_link p e = classList_remove [''text-indigo-600'', ''bg-indigo-50''] e"
    by (simp add: mark_link_def)
  moreover have "dataset_page (mark_link p e) \<noteq> p"
    using False by (simp add: dataset_page_mark_link)
  ultimately show ?thesis
    using classList_remove_idem [of "[''text-indigo-600'', ''bg-indigo-50'']" e]
    by (simp add: mark_link_def)
qed

lemma is_active_mark_link: "is_active (mark_link p e) = is_active e"
  by (auto simp: is_active_def mark_link_def set_classList_add set_classList_remove)

lemma marked_active_mark_link: "marked_active (mark_link p e) = (dataset_page e = p)"
  by (auto simp: marked_active_def mark_link_def set_classList_add set_classList_remove)

lemma nth_map_eq: "map g xs = map g ys \<Longrightarrow> j < length xs \<Longrightarrow> g (xs ! j) = g (ys ! j)"
  by (metis length_map nth_map)

lemma is_active_removed: "\<not> is_active (classList_remove [''active''] e)"
  by (simp add: is_active_def set_classList_remove)

lemma is_active_added: "is_active (classList_add [''active''] e)"
  by (simp add: is_active_def set_classList_add)

lemma updateUI_expenses_snd: "expenses (snd (updateUI r st)) = expenses st"
  by (cases "updateUI r st") (simp add: updateUI_expenses)

lemma DOMContentLoaded_expenses: "expenses (snd (DOMContentLoaded today doc)) = []"
  by (auto simp: DOMContentLoaded_def Let_def setDefaultDate_def updateUI_expenses_snd
           split: prod.splits outcome.splits
           dest!: showPage_expenses)

lemma hide_timeout_expenses: "expenses (hide_timeout r st) = expenses st"
  by (simp add: hide_timeout_def split: option.splits)

lemma entered_fields [simp]:
  "description_value (entered r v) = description_value v"
  "amount_value (entered r v) = amount_value v"
  "category_value (entered r v) = category_value v"
  by (simp_all add: entered_def)

lemma entered_valid: "valid_date_string (date_value v) \<Longrightarrow> entered r v = v"
  by (simp add: entered_def date_control_value_def)

lemma step_expenses:
  "expenses (step r st ev) =
     (case ev of
        Submit v now today \<Rightarrow>
          if valid_submission (entered r v)
          then expenses st @ [\<lparr>expense_id = now, description = description_value v,
                                amount = parseFloat (amount_value v),
                                category = category_value v,
                                date = date_value (entered r v)\<rparr>]
          else expenses st
      | _ \<Rightarrow> expenses st)"
proof (cases ev)
  case (Submit v now today)
  show ?thesis
  proof (cases "valid_submission (entered r v)")
    case True
    then have "valid_submission (form (st\<lparr>form := entered r v\<rparr>))" by simp
    from handleFormSubmit_valid [OF this, of r now today] True show ?thesis
      by (simp add: step_def Submit)
  next
    case False
    then have "\<not> valid_submission (form (st\<lparr>form := entered r v\<rparr>))" by simp
    from handleFormSubmit_invalid(1) [OF this, of r now today] False show ?thesis
      by (simp add: step_def Submit)
  qed
next
  case (NavClick l)
  then show ?thesis by (simp add: step_def showPage_expenses_snd)
next
  case Timeout
  then show ?thesis by (simp add: step_def hide_timeout_expenses)
qed

lemma run_snoc: "run r st (evs @ [ev]) = step r (run r st evs) ev"
  by (simp add: run_def)

lemma run_ids:
  "map expense_id (expenses (run r st evs)) = map expense_id (expenses st) @ accepted_readings r evs"
proof (induction evs rule: rev_induct)
  case Nil
  show ?case by (simp add: run_def accepted_readings_def)
next
  case (snoc ev evs)
  then show ?case
    by (cases ev) (simp_all add: run_snoc step_expenses accepted_readings_def)
qed

lemma run_truthy:
  assumes "\<forall>e \<in> set (expenses st). truthy (amount e)"
  shows "\<forall>e \<in> set (expenses (run r st evs)). truthy (amount e)"
proof (induction evs rule: rev_induct)
  case Nil
  show ?case using assms by (simp add: run_def)
next
  case (snoc ev evs)
  then show ?case
    by (cases ev) (auto simp: run_snoc step_expenses valid_submission_def)
qed

lemma script_refs_total:
  assumes "totalExpenditureEl (script_refs es) = Some t"
  shows "t < length es" and "messageBox (script_refs es) \<noteq> Some t"
proof -
  have t: "getElementById ''total-expenditure'' es = Some t"
    using assms by (simp add: script_refs_def)
  from getElementById_Some [OF t] show "t < length es" by simp
  from getElementById_Some [OF t] have "el_id (es ! t) = ''total-expenditure''" by simp
  moreover have "el_id (es ! t) = ''message-box''" if "messageBox (script_refs es) = Some t"
    using that getElementById_Some [of "''message-box''" es t] by (simp add: script_refs_def)
  ultimately show "messageBox (script_refs es) \<noteq> Some t" by auto
qed

lemma updateUI_elems:
  "elems (snd (updateUI r st)) =
     (case totalExpenditureEl r of
        None \<Rightarrow> elems st
      | Some t \<Rightarrow> (elems st)[t := (elems st ! t)\<lparr>textContent := ''$'' @ toFixed 2 (expenses_total (expenses st))\<rparr>])"
  by (simp add: updateUI_def Let_def foldl_append_children expenses_total_def split: option.splits)

lemma showMessage_elems:
  "elems (snd (showMessage r m st)) =
     (case messageBox r of
        None \<Rightarrow> elems st
      | Some mb \<Rightarrow> (elems st)[mb := classList_add [''show''] ((elems st ! mb)\<lparr>textContent := m\<rparr>)])"
  by (simp add: showMessage_def split: option.splits)

lemma showPage_eq:
  "showPage r pageId st =
     (case getElementById (case pageId of None \<Rightarrow> ''undefined'' | Some p \<Rightarrow> p) (elems st) of
        None \<Rightarrow> (TypeError, st\<lparr>elems := deactivate_pages r (elems st)\<rparr>)
      | Some i \<Rightarrow>
          (Returned,
           st\<lparr>elems := foldl (\<lambda>es link. es[link := mark_link pageId (es ! link)])
              ((deactivate_pages r (elems st))
                 [i := classList_add [''active''] (deactivate_pages r (elems st) ! i)])
              (navLinks r)\<rparr>))"
  by (simp add: showPage_no_element showPage_element split: option.splits)

lemma showPage_length: "length (elems (snd (showPage r p st))) = length (elems st)"
  by (simp add: showPage_eq length_foldl_update deactivate_pages_length split: option.splits)

lemma textContent_mark_link: "textContent (mark_link p e) = textContent e"
  by (simp add: mark_link_def classList_add_def classList_remove_def)

lemma showPage_textContent:
  "map textContent (elems (snd (showPage r p st))) = map textContent (elems st)"
proof -
  have 1: "map textContent (deactivate_pages r es) = map textContent es" for es
    unfolding deactivate_pages_def
    by (rule map_foldl_update) (simp add: classList_remove_def)
  have 2: "map textContent (foldl (\<lambda>es link. es[link := mark_link p (es ! link)]) es ls)
             = map textContent es" for es ls
    by (rule map_foldl_update) (simp add: textContent_mark_link)
  have 3: "map textContent (es[i := classList_add ts (es ! i)]) = map textContent es" for es i ts
    by (cases "i < length es")
       (simp_all add: map_update classList_add_def list_update_same_conv list_update_beyond)
  show ?thesis
    by (simp add: showPage_eq 1 2 3 split: option.splits)
qed

lemma showPage_textContent_nth:
  "t < length (elems st) \<Longrightarrow> textContent (elems (snd (showPage r p st)) ! t) = textContent (elems st ! t)"
  using nth_map_eq [OF showPage_textContent, of t r p st] by (simp add: showPage_length)

lemma updateUI_frame:
  assumes "updateUI r st = (out, st')"
  shows "length (elems st') = length (elems st)"
    and "totalExpenditureEl r = Some t \<Longrightarrow> t < length (elems st) \<Longrightarrow>
           textContent (elems st' ! t) = ''$'' @ toFixed 2 (expenses_total (expenses st))"
  using assms updateUI_elems [of r st] by (auto split: option.splits)

lemma showMessage_frame:
  assumes "showMessage r m st = (out, st')"
  shows "length (elems st') = length (elems st)"
    and "messageBox r \<noteq> Some t \<Longrightarrow> elems st' ! t = elems st ! t"
  using assms showMessage_elems [of r m st] by (auto split: option.splits)

lemma showPage_frame:
  assumes "showPage r p st = (out, st')"
  shows "length (elems st') = length (elems st)"
    and "t < length (elems st) \<Longrightarrow> textContent (elems st' ! t) = textContent (elems st ! t)"
  using assms showPage_length [of r p st] showPage_textContent_nth [of t st r p] by auto

lemma set_backgroundColor_frame:
  "length (elems (set_backgroundColor mb c st)) = length (elems st)"
  "t < length (elems st) \<Longrightarrow>
     textContent (elems (set_backgroundColor mb c st) ! t) = textContent (elems st ! t)"
  "expenses (set_backgroundColor mb c st) = expenses st"
  by (cases "mb = t"; simp add: set_backgroundColor_def)+

lemma handleFormSubmit_length:
  "length (elems (snd (handleFormSubmit r now today st))) = length (elems st)"
  by (auto simp: handleFormSubmit_def Let_def setDefaultDate_def set_backgroundColor_frame
              showPage_length
           split: prod.splits outcome.splits option.splits
           dest!: updateUI_frame(1) showMessage_frame(1))

lemma handleFormSubmit_total:
  assumes "valid_submission (form st)" and "totalExpenditureEl r = Some t"
    and "t < length (elems st)" and "messageBox r \<noteq> Some t"
  shows "textContent (elems (snd (handleFormSubmit r now today st)) ! t)
           = ''$'' @ toFixed 2 (expenses_total (expenses (snd (handleFormSubmit r now today st))))"
proof -
  let ?new = "\<lparr>expense_id = now, description = description_value (form st),
                amount = parseFloat (amount_value (form st)),
                category = category_value (form st), date = date_value (form st)\<rparr>"
  let ?st3 = "setDefaultDate r today (st\<lparr>expenses := expenses st @ [?new], form := form_defaults st\<rparr>)"
  let ?X = "''$'' @ toFixed 2 (expenses_total (expenses st @ [?new]))"
  have e3: "expenses ?st3 = expenses st @ [?new]" and l3: "length (elems ?st3) = length (elems st)"
    by (simp_all add: setDefaultDate_def)
  obtain out4 st4 where u: "updateUI r ?st3 = (out4, st4)" by (cases "updateUI r ?st3") auto
  have l4: "length (elems st4) = length (elems st)"
    using updateUI_frame(1) [OF u] l3 by simp
  have t4: "textContent (elems st4 ! t) = ?X"
    using updateUI_frame(2) [OF u assms(2)] assms(3) l3 e3 by simp
  have "textContent (elems (snd (handleFormSubmit r now today st)) ! t) = ?X"
  proof (cases out4)
    case TypeError
    then show ?thesis
      using assms(1) u t4 by (simp add: handleFormSubmit_def valid_submission_def Let_def)
  next
    case Returned
    show ?thesis
    proof (cases "messageBox r")
      case None
      then show ?thesis
        using assms(1) u t4 Returned by (simp add: handleFormSubmit_def valid_submission_def Let_def)
    next
      case (Some mb)
      let ?st4' = "set_backgroundColor mb ''#22c55e'' st4"
      obtain out5 st5 where m: "showMessage r ''Expense added successfully!'' ?st4' = (out5, st5)"
        by (cases "showMessage r ''Expense added successfully!'' ?st4'") auto
      have l5: "length (elems st5) = length (elems st)"
        using showMessage_frame(1) [OF m] l4 by (simp add: set_backgroundColor_frame)
      have t5: "textContent (elems st5 ! t) = ?X"
        using showMessage_frame(2) [OF m assms(4)] t4 assms(3) l4
        by (simp add: set_backgroundColor_frame)
      show ?thesis
      proof (cases out5)
        case TypeError
        then show ?thesis
          using assms(1) u Returned Some m t5
          by (simp add: handleFormSubmit_def valid_submission_def Let_def)
      next
        case Returned': Returned
        have "textContent (elems (snd (showPage r (Some ''dashboard-page'') st5)) ! t) = ?X"
          using showPage_textContent_nth [of t st5 r "Some ''dashboard-page''"] assms(3) l5 t5 by simp
        then show ?thesis
          using assms(1) u Returned Some m Returned'
          by (simp add: handleFormSubmit_def valid_submission_def Let_def)
      qed
    qed
  qed
  then show ?thesis
    using handleFormSubmit_valid [OF assms(1), of r now today] by simp
qed

lemma step_length: "length (elems (step r st ev)) = length (elems st)"
  by (cases ev)
     (simp_all add: step_def handleFormSubmit_length showPage_length hide_timeout_def
        split: option.splits)

lemma run_length: "length (elems (run r st evs)) = length (elems st)"
  by (induction evs rule: rev_induct) (simp_all add: run_snoc step_length, simp add: run_def)

lemma DOMContentLoaded_length:
  "length (elems (snd (DOMContentLoaded today doc))) = length (elems doc)"
  by (auto simp: DOMContentLoaded_def Let_def setDefaultDate_def updateUI_elems
           split: prod.splits outcome.splits option.splits
           dest!: showPage_frame(1))

lemma is_digit_table: "k < 10 \<Longrightarrow> is_digit (''0123456789'' ! k)"
  unfolding is_digit_def by (rule nth_mem) simp

lemma digits_of_digits: "list_all is_digit (digits_of n)"
proof (induction n rule: digits_of.induct)
  case (1 n)
  show ?case
  proof (cases "n = 0")
    case True
    then show ?thesis by (simp add: digits_of.simps)
  next
    case False
    have "is_digit (''0123456789'' ! (n mod 10))" by (rule is_digit_table) simp
    with False "1.IH" show ?thesis
      by (subst digits_of.simps) simp
  qed
qed

lemma decimal_repr_digits: "list_all is_digit (decimal_repr n)" "decimal_repr n \<noteq> []"
proof -
  show "list_all is_digit (decimal_repr n)"
    by (simp add: decimal_repr_def digits_of_digits is_digit_def)
  show "decimal_repr n \<noteq> []"
    by (cases "n = 0") (simp_all add: decimal_repr_def digits_of.simps [of n])
qed

lemma is_digit_not_minus: "is_digit c \<Longrightarrow> c \<noteq> CHR ''-''"
  by (auto simp: is_digit_def)

lemma two_decimals_form:
  assumes "list_all is_digit ds" and "ds \<noteq> []" and "list_all is_digit fs" and "length fs = 2"
  shows "two_decimals (ds @ ''.'' @ fs)" and "two_decimals (''-'' @ ds @ ''.'' @ fs)"
proof -
  have hd: "hd (ds @ ''.'' @ fs) \<noteq> CHR ''-''"
    using assms(1,2) by (cases ds) (simp_all add: is_digit_not_minus)
  have body: "4 \<le> length (ds @ ''.'' @ fs)
      \<and> (ds @ ''.'' @ fs) ! (length (ds @ ''.'' @ fs) - 3) = CHR ''.''
      \<and> list_all is_digit (take (length (ds @ ''.'' @ fs) - 3) (ds @ ''.'' @ fs))
      \<and> list_all is_digit (drop (length (ds @ ''.'' @ fs) - 2) (ds @ ''.'' @ fs))"
    using assms by (cases ds) (simp_all add: nth_append)
  show "two_decimals (ds @ ''.'' @ fs)"
    using hd body unfolding two_decimals_def Let_def by (simp only: if_False simp_thms)
  show "two_decimals (''-'' @ ds @ ''.'' @ fs)"
    using body unfolding two_decimals_def Let_def by simp
qed

lemma fixed_digits_form:
  "\<exists>ds fs. fixed_digits 2 a = ds @ ''.'' @ fs \<and> ds \<noteq> [] \<and> list_all is_digit ds
           \<and> list_all is_digit fs \<and> length fs = 2"
proof -
  define m where "m = decimal_repr (nat \<lfloor>a * 10 ^ 2 + 1 / 2\<rfloor>)"
  define m' where "m' = (if length m \<le> 2 then replicate (2 + 1 - length m) CHR ''0'' @ m else m)"
  have d: "list_all is_digit m'" and l: "3 \<le> length m'"
    using decimal_repr_digits [of "nat \<lfloor>a * 10 ^ 2 + 1 / 2\<rfloor>"]
    by (auto simp: m'_def m_def is_digit_def list_all_iff)
  have f: "fixed_digits 2 a = take (length m' - 2) m' @ ''.'' @ drop (length m' - 2) m'"
    by (simp add: fixed_digits_def Let_def m'_def m_def)
  have "take (length m' - 2) m' \<noteq> []" using l by auto
  moreover have "list_all is_digit (take (length m' - 2) m')"
    using d by (auto simp: list_all_iff dest: in_set_takeD)
  moreover have "list_all is_digit (drop (length m' - 2) m')"
    using d by (auto simp: list_all_iff dest: in_set_dropD)
  moreover have "length (drop (length m' - 2) m') = 2" using l by simp
  ultimately show ?thesis using f by blast
qed

lemma toFixed_two_decimals:
  assumes "\<bar>q\<bar> < 10 ^ 21"
  shows "two_decimals (toFixed 2 (Fin q))"
proof -
  obtain ds fs where f: "fixed_digits 2 \<bar>q\<bar> = ds @ ''.'' @ fs" "ds \<noteq> []" "list_all is_digit ds"
      "list_all is_digit fs" "length fs = 2"
    using fixed_digits_form [of "\<bar>q\<bar>"] by blast
  have "toFixed 2 (Fin q) = (if q < 0 then ''-'' else '''') @ fixed_digits 2 \<bar>q\<bar>"
    using assms by (simp add: toFixed_def Let_def)
  then show ?thesis
    using two_decimals_form [OF f(3) f(2) f(4) f(5)] f(1) by (cases "q < 0") simp_all
qed

lemma run_amounts:
  "map amount (expenses (run r st evs))
     = map amount (expenses st) @ map submitted_amount (filter (accepted r) evs)"
proof (induction evs rule: rev_induct)
  case Nil
  show ?case by (simp add: run_def)
next
  case (snoc ev evs)
  then show ?case
    by (cases ev) (simp_all add: run_snoc step_expenses accepted_def submitted_amount_def)
qed

lemma hide_timeout_textContent:
  "textContent (elems (hide_timeout r st) ! t) = textContent (elems st ! t)"
proof (cases "messageBox r")
  case None
  then show ?thesis by (simp add: hide_timeout_def)
next
  case (Some mb)
  show ?thesis
  proof (cases "mb = t")
    case True
    then show ?thesis
      by (cases "t < length (elems st)")
         (simp_all add: hide_timeout_def Some classList_remove_def list_update_beyond)
  next
    case False
    then show ?thesis by (simp add: hide_timeout_def Some)
  qed
qed

lemma handleFormSubmit_invalid_text:
  assumes "\<not> valid_submission (form st)" and "messageBox r \<noteq> Some t"
  shows "textContent (elems (snd (handleFormSubmit r now today st)) ! t) = textContent (elems st ! t)"
proof (cases "messageBox r")
  case None
  then show ?thesis
    using assms(1) by (simp add: handleFormSubmit_def valid_submission_def showMessage_def)
next
  case (Some mb)
  then have "mb \<noteq> t" using assms(2) by simp
  then show ?thesis
    using assms(1) Some
    by (simp add: handleFormSubmit_def valid_submission_def showMessage_def
          set_backgroundColor_def)
qed

text \<open>
  The total shown is that of the array once \<^verbatim>\<open>updateUI\<close> has run, and every event
  keeps it so.
\<close>

lemma step_total_shown:
  assumes "totalExpenditureEl r = Some t" and "t < length (elems st)"
    and "messageBox r \<noteq> Some t" and "accepted r ev \<or> total_shown t st"
  shows "total_shown t (step r st ev)"
proof (cases ev)
  case (Submit v now today)
  show ?thesis
  proof (cases "valid_submission (entered r v)")
    case True
    then have "valid_submission (form (st\<lparr>form := entered r v\<rparr>))" by simp
    from handleFormSubmit_total [OF this assms(1) _ assms(3), of now today] assms(2)
    show ?thesis by (simp add: total_shown_def step_def Submit)
  next
    case False
    then have n: "\<not> valid_submission (form (st\<lparr>form := entered r v\<rparr>))" by simp
    from False have "total_shown t st" using assms(4) by (simp add: accepted_def Submit)
    then show ?thesis
      using handleFormSubmit_invalid_text [OF n assms(3), of now today]
        handleFormSubmit_invalid(1) [OF n, of r now today]
      by (simp add: total_shown_def step_def Submit)
  qed
next
  case (NavClick l)
  then have "total_shown t st" using assms(4) by (simp add: accepted_def)
  then show ?thesis
    using assms(2) by (simp add: total_shown_def step_def NavClick showPage_textContent_nth
        showPage_expenses_snd)
next
  case Timeout
  then have "total_shown t st" using assms(4) by (simp add: accepted_def)
  then show ?thesis
    by (simp add: total_shown_def step_def Timeout hide_timeout_textContent hide_timeout_expenses)
qed

lemma run_total_shown:
  assumes "totalExpenditureEl r = Some t" and "t < length (elems st)"
    and "messageBox r \<noteq> Some t" and "list_ex (accepted r) evs \<or> total_shown t st"
  shows "total_shown t (run r st evs)"
  using assms(4)
proof (induction evs rule: rev_induct)
  case Nil
  then show ?case by (simp add: run_def)
next
  case (snoc ev evs)
  have l: "t < length (elems (run r st evs))" using assms(2) by (simp add: run_length)
  have "accepted r ev \<or> total_shown t (run r st evs)"
    using snoc by auto
  from step_total_shown [OF assms(1) l assms(3) this] show ?case by (simp add: run_snoc)
qed

lemma DOMContentLoaded_total_shown:
  assumes "totalExpenditureEl (script_refs (elems doc)) = Some t"
    and "getElementById ''logger-page'' (elems doc) \<noteq> None"
  shows "total_shown t (snd (DOMContentLoaded today doc))"
proof -
  let ?r = "script_refs (elems doc)"
  let ?st1 = "setDefaultDate ?r today (doc\<lparr>expenses := []\<rparr>)"
  have e1: "elems ?st1 = elems doc" by (simp add: setDefaultDate_def)
  obtain i where i: "getElementById ''logger-page'' (elems ?st1) = Some i"
    using assms(2) e1 by auto
  obtain st2 where p: "showPage ?r (Some ''logger-page'') ?st1 = (Returned, st2)"
    using i by (simp add: showPage_eq)
  have l2: "t < length (elems st2)"
    using showPage_frame(1) [OF p] script_refs_total(1) [OF assms(1)] e1 by simp
  obtain out st3 where u: "updateUI ?r st2 = (out, st3)" by (cases "updateUI ?r st2")
  from updateUI_frame(2) [OF u assms(1) l2] updateUI_expenses [OF u]
  have "total_shown t st3" by (simp add: total_shown_def)
  then show ?thesis
    using p u by (simp add: DOMContentLoaded_def Let_def)
qed

lemma session_total_text:
  assumes "totalExpenditureEl (script_refs (elems doc)) = Some t"
    and "getElementById ''logger-page'' (elems doc) \<noteq> None
         \<or> list_ex (accepted (script_refs (elems doc))) evs"
  shows "textContent (elems (session today doc evs) ! t)
           = ''$'' @ toFixed 2 (expenses_total (expenses (session today doc evs)))"
proof -
  let ?r = "script_refs (elems doc)"
  let ?st0 = "snd (DOMContentLoaded today doc)"
  have t: "t < length (elems ?st0)"
    using script_refs_total(1) [OF assms(1)] by (simp add: DOMContentLoaded_length)
  have "list_ex (accepted ?r) evs \<or> total_shown t ?st0"
    using assms(2) DOMContentLoaded_total_shown [OF assms(1)] by auto
  from run_total_shown [OF assms(1) t script_refs_total(2) [OF assms(1)] this]
  show ?thesis by (simp add: session_def total_shown_def)
qed

lemma session_records:
  "expenses (session today doc evs) =
     concat (map (\<lambda>ev. case ev of
                          Submit v now today \<Rightarrow>
                            if valid_submission (entered (script_refs (elems doc)) v)
                            then [\<lparr>expense_id = now, description = description_value v,
                                    amount = parseFloat (amount_value v),
                                    category = category_value v,
                                    date = date_value (entered (script_refs (elems doc)) v)\<rparr>]
                            else []
                        | _ \<Rightarrow> []) evs)"
proof -
  have "expenses (run r st evs) = expenses st @ concat (map (\<lambda>ev. case ev of
                          Submit v now today \<Rightarrow>
                            if valid_submission (entered r v)
                            then [\<lparr>expense_id = now, description = description_value v,
                                    amount = parseFloat (amount_value v),
                                    category = category_value v,
                                    date = date_value (entered r v)\<rparr>]
                            else []
                        | _ \<Rightarrow> []) evs)" for r st
  proof (induction evs rule: rev_induct)
    case Nil
    show ?case by (simp add: run_def)
  next
    case (snoc ev evs)
    then show ?case by (cases ev) (simp_all add: run_snoc step_expenses)
  qed
  then show ?thesis by (simp add: session_def DOMContentLoaded_expenses)
qed

lemma valid_date_examples:
  "valid_date_string ''2024-01-10''" "valid_date_string ''2024-01-05''"
  "valid_date_string ''2024-01-20''"
  by (simp_all add: valid_date_string_def three_numbers_def is_digit_def digits_value_def
        digit_value_def Let_def days_in_month_def is_leap_year_def)

lemma LocalTZA_example [simp]: "LocalTZA example_document = (\<lambda>t. 0)"
  by (simp add: example_document_def)

lemma example_values_sel [simp]:
  "description_value (example_values d a c t) = d" "amount_value (example_values d a c t) = a"
  "category_value (example_values d a c t) = c" "date_value (example_values d a c t) = t"
  by (simp_all add: example_values_def)

lemma valid_date_string_nonempty: "valid_date_string t \<Longrightarrow> t \<noteq> []"
  by (auto simp: valid_date_string_def three_numbers_def)

lemma entered_example_date:
  "valid_date_string t \<Longrightarrow> date_value (entered r (example_values d a c t)) = t"
  by (simp add: entered_valid)

lemma accepted_example:
  "valid_date_string t \<Longrightarrow>
     valid_submission (entered r (example_values d a c t)) \<longleftrightarrow> d \<noteq> [] \<and> truthy (parseFloat a)"
  by (simp add: entered_valid valid_submission_def valid_date_string_nonempty)

text \<open>Evaluating the number functions at the inputs of the examples.\<close>

lemma floor_rat_numeral_div: "\<lfloor>(numeral a / numeral b :: rat)\<rfloor> = numeral a div numeral b"
  by (metis floor_divide_of_int_eq of_int_numeral)

lemmas number_eval = round_double_def round_pos_def floor_log2_def pow2_def pow10_def
  round_half_even_def js_negate_def Let_def log2_from_above.simps log2_from_below.simps
  floor_rat_numeral_div

lemmas parse_eval = parseFloat_def StrDecimalLiteral_def StrUnsignedDecimalLiteral_def
  ExponentPart_def is_digit_def digit_value_def digits_value_def is_StrWhiteSpaceChar_def
  pow10_def Let_def

lemmas toFixed_eval = toFixed_def fixed_digits_def decimal_repr_def digits_of.simps Let_def
  floor_rat_numeral_div Number_toString_large_def shortest_digits.simps digit_candidates_def
  closer_def

lemma parseFloat_1e21: "parseFloat ''1e21'' = Fin (1000000000000000000000)"
proof -
  have "parseFloat ''1e21'' = round_double (1000000000000000000000)" by (simp add: parse_eval)
  also have "\<dots> = Fin (1000000000000000000000)" by (simp add: number_eval)
  finally show ?thesis .
qed

lemma parseFloat_1: "parseFloat ''1'' = Fin 1"
proof -
  have "parseFloat ''1'' = round_double 1" by (simp add: parse_eval)
  also have "\<dots> = Fin 1" by (simp add: number_eval)
  finally show ?thesis .
qed

lemma parseFloat_450: "parseFloat ''4.50'' = Fin (9 / 2)"
proof -
  have "parseFloat ''4.50'' = round_double (9 / 2)" by (simp add: parse_eval)
  also have "\<dots> = Fin (9 / 2)" by (simp add: number_eval)
  finally show ?thesis .
qed

lemma parseFloat_12: "parseFloat ''12'' = Fin 12"
proof -
  have "parseFloat ''12'' = round_double 12" by (simp add: parse_eval)
  also have "\<dots> = Fin 12" by (simp add: number_eval)
  finally show ?thesis .
qed

lemma total_1e21_1: "js_add (js_add (Fin 0) (Fin (1000000000000000000000))) (Fin 1) = Fin (1000000000000000000000)"
proof -
  have "js_add (Fin 0) (Fin (1000000000000000000000)) = Fin (1000000000000000000000)" by (simp add: number_eval)
  moreover have "js_add (Fin (1000000000000000000000)) (Fin 1) = Fin (1000000000000000000000)" by (simp add: number_eval)
  ultimately show ?thesis by simp
qed

lemma toFixed_1e21: "toFixed 2 (Fin (1000000000000000000000)) = ''1e+21''"
  by (simp add: toFixed_eval number_eval)

lemma total_450_12: "js_add (js_add (Fin 0) (Fin (9 / 2))) (Fin 12) = Fin (33 / 2)"
proof -
  have "js_add (Fin 0) (Fin (9 / 2)) = Fin (9 / 2)" by (simp add: number_eval)
  moreover have "js_add (Fin (9 / 2)) (Fin 12) = Fin (33 / 2)" by (simp add: number_eval)
  ultimately show ?thesis by simp
qed

lemma toFixed_1650: "toFixed 2 (Fin (33 / 2)) = ''16.50''"
  by (simp add: toFixed_eval)

lemma parseFloat_empty: "parseFloat [] = NaN"
  by (simp add: parse_eval)

lemma parseFloat_minus5: "parseFloat ''-5'' = Fin (- 5)"
proof -
  have "parseFloat ''-5'' = js_negate (round_double 5)" by (simp add: parse_eval)
  also have "\<dots> = Fin (- 5)" by (simp add: number_eval)
  finally show ?thesis .
qed

lemma digits_of_exact_total: "digits_of 100000000000000000000100 = ''100000000000000000000100''"
  by (simp add: digits_of.simps)

lemma fixed_digits_exact_total: "fixed_digits 2 1000000000000000000001 = ''1000000000000000000001.00''"
  by (simp add: fixed_digits_def decimal_repr_def Let_def floor_rat_numeral_div digits_of_exact_total)














lemma SortCompare_by_date:
  assumes "Date_parse tza (date a) \<noteq> None" and "Date_parse tza (date b) \<noteq> None"
  shows "SortCompare (by_date_desc tza) a b = time_of tza b - time_of tza a"
  using assms by (auto simp: SortCompare_def by_date_desc_def time_of_def)

text \<open>The sort: a permutation always, and the stable sort when every date parses.\<close>

lemma mset_take_drop_split: "mset (take n xs) + mset (drop n xs) = mset xs"
  by (metis append_take_drop_id mset_append)

lemma mset_insert_pivot: "mset (insert_pivot f ys p) = add_mset p (mset ys)"
proof -
  have "mset (take k ys @ p # drop k ys) = add_mset p (mset (take k ys) + mset (drop k ys))" for k
    by simp
  then show ?thesis by (simp add: insert_pivot_def Let_def mset_take_drop_split)
qed

lemma mset_BinaryInsertionSort: "mset (BinaryInsertionSort f start rest) = mset start + mset rest"
  unfolding BinaryInsertionSort_def
  by (induction rest arbitrary: start) (simp_all add: mset_insert_pivot)

lemma mset_CountAndMakeRun:
  "CountAndMakeRun f xs = (start, rest) \<Longrightarrow> mset start + mset rest = mset xs"
  by (auto simp: CountAndMakeRun_def Let_def mset_take_drop_split split: list.splits)

lemma mset_Array_sort: "mset (Array_sort f xs) = mset xs"
  by (auto simp: Array_sort_def mset_BinaryInsertionSort split: prod.splits
           dest: mset_CountAndMakeRun)

lemma insertion_point_correct:
  assumes "sorted (map f ys)"
    and "\<forall>y \<in> set ys. SortCompare cmp p y < 0 \<longleftrightarrow> f p < (f y :: int)"
    and "l \<le> r" and "r \<le> length ys"
    and "\<forall>i < l. f (ys ! i) \<le> f p"
    and "\<forall>i. r \<le> i \<and> i < length ys \<longrightarrow> f p < f (ys ! i)"
  shows "l \<le> insertion_point cmp p ys l r \<and> insertion_point cmp p ys l r \<le> r
       \<and> (\<forall>i < insertion_point cmp p ys l r. f (ys ! i) \<le> f p)
       \<and> (\<forall>i. insertion_point cmp p ys l r \<le> i \<and> i < length ys \<longrightarrow> f p < f (ys ! i))"
  using assms
proof (induction cmp p ys l r rule: insertion_point.induct)
  case (1 cmp p ys l r)
  note srt = "1.prems"(1) and cmp = "1.prems"(2) and lr = "1.prems"(3) and rl = "1.prems"(4)
    and below = "1.prems"(5) and above = "1.prems"(6)
  show ?case
  proof (cases "l < r")
    case False
    then have "insertion_point cmp p ys l r = l"
      by (simp add: insertion_point.simps [of cmp p ys l r])
    moreover have "l = r" using False lr by simp
    ultimately show ?thesis
      using rl below above by simp
  next
    case True
    define mid where "mid = l + (r - l) div 2"
    have mid: "l \<le> mid" "mid < r" using True by (simp_all add: mid_def)
    then have ml: "mid < length ys" using rl by simp
    have key: "SortCompare cmp p (ys ! mid) < 0 \<longleftrightarrow> f p < f (ys ! mid)"
      using cmp ml by simp
    have mono: "f (ys ! i) \<le> f (ys ! j)" if "i \<le> j" "j < length ys" for i j
      using srt that by (simp add: sorted_iff_nth_mono)
    show ?thesis
    proof (cases "SortCompare cmp p (ys ! mid) < 0")
      case less: True
      have eq: "insertion_point cmp p ys l r = insertion_point cmp p ys l mid"
        using True less by (simp add: insertion_point.simps [of cmp p ys l r] mid_def Let_def)
      have above': "\<forall>i. mid \<le> i \<and> i < length ys \<longrightarrow> f p < f (ys ! i)"
      proof (intro allI impI)
        fix i assume "mid \<le> i \<and> i < length ys"
        then have "f (ys ! mid) \<le> f (ys ! i)" using mono by simp
        then show "f p < f (ys ! i)" using less key by simp
      qed
      have "mid \<le> length ys" using ml by simp
      from "1.IH"(1) [OF True mid_def less srt cmp mid(1) this below above']
      show ?thesis unfolding eq using mid by auto
    next
      case geq: False
      have eq: "insertion_point cmp p ys l r = insertion_point cmp p ys (mid + 1) r"
        using True geq by (simp add: insertion_point.simps [of cmp p ys l r] mid_def Let_def)
      have below': "\<forall>i < mid + 1. f (ys ! i) \<le> f p"
      proof (intro allI impI)
        fix i assume "i < mid + 1"
        then have "f (ys ! i) \<le> f (ys ! mid)" using mono ml by simp
        then show "f (ys ! i) \<le> f p" using geq key by simp
      qed
      have "mid + 1 \<le> r" using mid by simp
      from "1.IH"(2) [OF True mid_def geq srt cmp this rl below' above]
      show ?thesis unfolding eq using mid by auto
    qed
  qed
qed

lemma insert_pivot_sorted:
  assumes "sorted (map f ys)"
    and "\<forall>y \<in> set ys. SortCompare cmp p y < 0 \<longleftrightarrow> f p < (f y :: int)"
  shows "sorted (map f (insert_pivot cmp ys p))"
    and "filter (\<lambda>v. f v = c) (insert_pivot cmp ys p)
           = filter (\<lambda>v. f v = c) ys @ (if f p = c then [p] else [])"
proof -
  define k where "k = insertion_point cmp p ys 0 (length ys)"
  have k: "k \<le> length ys" "\<forall>i < k. f (ys ! i) \<le> f p"
    "\<forall>i. k \<le> i \<and> i < length ys \<longrightarrow> f p < f (ys ! i)"
    using insertion_point_correct [OF assms, of 0 "length ys"] by (simp_all add: k_def)
  have lo: "f x \<le> f p" if "x \<in> set (take k ys)" for x
  proof -
    from that obtain i where "i < length (take k ys)" "take k ys ! i = x"
      by (auto simp: in_set_conv_nth)
    then show ?thesis using k(2) by auto
  qed
  have hi: "f p < f x" if "x \<in> set (drop k ys)" for x
  proof -
    from that obtain i where i: "i < length (drop k ys)" "drop k ys ! i = x"
      by (auto simp: in_set_conv_nth)
    then have "x = ys ! (k + i)" "k + i < length ys" using k(1) by auto
    then show ?thesis using k(3) by simp
  qed
  have s1: "sorted (map f (take k ys))" and s2: "sorted (map f (drop k ys))"
    using assms(1) by (simp_all add: sorted_map sorted_wrt_take sorted_wrt_drop)
  have "sorted (map f (take k ys @ p # drop k ys))"
    using s1 s2 lo hi by (fastforce simp: sorted_append)
  then show "sorted (map f (insert_pivot cmp ys p))"
    by (simp add: insert_pivot_def k_def Let_def)
  have none: "filter (\<lambda>v. f v = c) (drop k ys) = []" if "f p = c"
  proof -
    have "f x \<noteq> c" if "x \<in> set (drop k ys)" for x
      using hi [OF that] \<open>f p = c\<close> by simp
    then show ?thesis by (simp add: filter_empty_conv)
  qed
  have "filter (\<lambda>v. f v = c) (take k ys @ p # drop k ys)
          = filter (\<lambda>v. f v = c) ys @ (if f p = c then [p] else [])"
  proof (cases "f p = c")
    case True
    have "filter (\<lambda>v. f v = c) ys
            = filter (\<lambda>v. f v = c) (take k ys) @ filter (\<lambda>v. f v = c) (drop k ys)"
      by (metis append_take_drop_id filter_append)
    then show ?thesis using True none by simp
  next
    case False
    have "filter (\<lambda>v. f v = c) ys
            = filter (\<lambda>v. f v = c) (take k ys) @ filter (\<lambda>v. f v = c) (drop k ys)"
      by (metis append_take_drop_id filter_append)
    then show ?thesis using False by simp
  qed
  then show "filter (\<lambda>v. f v = c) (insert_pivot cmp ys p)
           = filter (\<lambda>v. f v = c) ys @ (if f p = c then [p] else [])"
    by (simp add: insert_pivot_def k_def Let_def)
qed

lemma run_length_le: "run_length cmp d previous rest \<le> length rest"
  by (induction rest arbitrary: previous) (simp_all add: Let_def)

lemma run_ascending:
  assumes "\<forall>a \<in> set (previous # rest). \<forall>b \<in> set (previous # rest).
             SortCompare cmp a b < 0 \<longleftrightarrow> f a < (f b :: int)"
  shows "sorted (map f (previous # take (run_length cmp False previous rest) rest))"
  using assms
proof (induction rest arbitrary: previous)
  case Nil
  show ?case by simp
next
  case (Cons current rest)
  show ?case
  proof (cases "SortCompare cmp current previous < 0")
    case True
    then show ?thesis by simp
  next
    case False
    then have le: "f previous \<le> f current" using Cons.prems by auto
    have "sorted (map f (current # take (run_length cmp False current rest) rest))"
      using Cons.prems by (intro Cons.IH) auto
    then show ?thesis using False le by (auto simp: Let_def)
  qed
qed

lemma run_descending:
  assumes "\<forall>a \<in> set (previous # rest). \<forall>b \<in> set (previous # rest).
             SortCompare cmp a b < 0 \<longleftrightarrow> f a < (f b :: int)"
  shows "sorted_wrt (\<lambda>a b. f b < f a) (previous # take (run_length cmp True previous rest) rest)"
  using assms
proof (induction rest arbitrary: previous)
  case Nil
  show ?case by simp
next
  case (Cons current rest)
  show ?case
  proof (cases "SortCompare cmp current previous < 0")
    case False
    then show ?thesis by simp
  next
    case True
    then have lt: "f current < f previous" using Cons.prems by auto
    have "sorted_wrt (\<lambda>a b. f b < f a) (current # take (run_length cmp True current rest) rest)"
      using Cons.prems by (intro Cons.IH) auto
    then show ?thesis using True lt by (auto simp: Let_def)
  qed
qed

lemma filter_rev_strict:
  assumes "sorted_wrt (\<lambda>a b. f b < (f a :: int)) zs"
  shows "filter (\<lambda>v. f v = c) (rev zs) = filter (\<lambda>v. f v = c) zs"
  using assms
proof (induction zs)
  case Nil
  show ?case by simp
next
  case (Cons z zs)
  have "filter (\<lambda>v. f v = c) zs = []" if "f z = c"
    using Cons.prems that by (auto simp: filter_empty_conv)
  then show ?case using Cons by auto
qed

lemma sorted_rev_strict:
  assumes "sorted_wrt (\<lambda>a b. f b < (f a :: int)) zs"
  shows "sorted (map f (rev zs))"
proof -
  have "sorted_wrt (\<lambda>a b. f a \<le> f b) (rev zs)"
    unfolding sorted_wrt_rev using assms by (rule sorted_wrt_mono_rel [rotated]) simp
  then show ?thesis by (simp add: sorted_map)
qed

lemma CountAndMakeRun_sorted:
  assumes "\<forall>a \<in> set xs. \<forall>b \<in> set xs. SortCompare cmp a b < 0 \<longleftrightarrow> f a < (f b :: int)"
    and "CountAndMakeRun cmp xs = (start, rest)"
  shows "sorted (map f start)"
    and "filter (\<lambda>v. f v = c) start @ filter (\<lambda>v. f v = c) rest = filter (\<lambda>v. f v = c) xs"
proof -
  have both: "sorted (map f start)
     \<and> filter (\<lambda>v. f v = c) start @ filter (\<lambda>v. f v = c) rest = filter (\<lambda>v. f v = c) xs"
  proof (cases xs)
    case Nil
    then show ?thesis using assms(2) by (simp add: CountAndMakeRun_def)
  next
    case (Cons x xs')
    show ?thesis
    proof (cases xs')
      case Nil
      then have "start = [x]" "rest = []" "xs = [x]"
        using assms(2) Cons by (auto simp: CountAndMakeRun_def)
      then show ?thesis by simp
    next
      case inner: (Cons y zs)
      have xs: "xs = x # y # zs" using Cons inner by simp
      have k: "\<forall>a \<in> set (y # zs). \<forall>b \<in> set (y # zs). SortCompare cmp a b < 0 \<longleftrightarrow> f a < f b"
        using assms(1) xs by simp
      have kxy: "SortCompare cmp y x < 0 \<longleftrightarrow> f y < f x" using assms(1) xs by simp
      have split: "filter (\<lambda>v. f v = c) (take n xs) @ filter (\<lambda>v. f v = c) (drop n xs)
                     = filter (\<lambda>v. f v = c) xs" for n
        by (metis append_take_drop_id filter_append)
      show ?thesis
      proof (cases "SortCompare cmp y x < 0")
        case True
        define n where "n = 2 + run_length cmp True y zs"
        have sr: "start = rev (take n xs)" "rest = drop n xs"
          using assms(2) True by (simp_all add: CountAndMakeRun_def xs Let_def n_def)
        have tk: "take n xs = x # y # take (run_length cmp True y zs) zs"
          by (simp add: n_def xs)
        have "sorted_wrt (\<lambda>a b. f b < f a) (y # take (run_length cmp True y zs) zs)"
          by (rule run_descending [OF k])
        then have d: "sorted_wrt (\<lambda>a b. f b < f a) (take n xs)"
          unfolding tk using True kxy by auto
        show ?thesis
          using sorted_rev_strict [OF d] filter_rev_strict [OF d, of c] split [of n]
          by (simp add: sr)
      next
        case False
        define n where "n = 2 + run_length cmp False y zs"
        have sr: "start = take n xs" "rest = drop n xs"
          using assms(2) False by (simp_all add: CountAndMakeRun_def xs Let_def n_def)
        have tk: "take n xs = x # y # take (run_length cmp False y zs) zs"
          by (simp add: n_def xs)
        have "sorted (map f (y # take (run_length cmp False y zs) zs))"
          by (rule run_ascending [OF k])
        then have "sorted (map f (take n xs))"
          unfolding tk using False kxy by auto
        then show ?thesis
          using split [of n] by (simp add: sr)
      qed
    qed
  qed
  from both show "sorted (map f start)" by simp
  from both show "filter (\<lambda>v. f v = c) start @ filter (\<lambda>v. f v = c) rest = filter (\<lambda>v. f v = c) xs"
    by simp
qed

lemma BinaryInsertionSort_sorted:
  assumes "\<forall>a \<in> set (start @ rest). \<forall>b \<in> set (start @ rest).
             SortCompare cmp a b < 0 \<longleftrightarrow> f a < (f b :: int)"
    and "sorted (map f start)"
  shows "sorted (map f (BinaryInsertionSort cmp start rest))
       \<and> filter (\<lambda>v. f v = c) (BinaryInsertionSort cmp start rest)
           = filter (\<lambda>v. f v = c) start @ filter (\<lambda>v. f v = c) rest"
  using assms
proof (induction rest arbitrary: start)
  case Nil
  then show ?case by (simp add: BinaryInsertionSort_def)
next
  case (Cons p rest)
  have kp: "\<forall>y \<in> set start. SortCompare cmp p y < 0 \<longleftrightarrow> f p < f y"
    using Cons.prems(1) by simp
  note ins = insert_pivot_sorted [OF Cons.prems(2) kp]
  have set': "set (insert_pivot cmp start p @ rest) = set (start @ p # rest)"
    using mset_insert_pivot [of cmp start p] by (metis mset_append mset.simps(2) set_mset_mset
        union_mset_add_mset_left union_mset_add_mset_right)
  have "sorted (map f (BinaryInsertionSort cmp (insert_pivot cmp start p) rest))
       \<and> filter (\<lambda>v. f v = c) (BinaryInsertionSort cmp (insert_pivot cmp start p) rest)
           = filter (\<lambda>v. f v = c) (insert_pivot cmp start p) @ filter (\<lambda>v. f v = c) rest"
    using Cons.prems(1) ins(1) unfolding set' [symmetric] by (intro Cons.IH)
  then show ?case
    using ins(2) [of c] by (simp add: BinaryInsertionSort_def)
qed

lemma Array_sort_sorted:
  assumes "\<forall>a \<in> set xs. \<forall>b \<in> set xs. SortCompare cmp a b < 0 \<longleftrightarrow> f a < (f b :: int)"
  shows "sorted (map f (Array_sort cmp xs))"
    and "filter (\<lambda>v. f v = c) (Array_sort cmp xs) = filter (\<lambda>v. f v = c) xs"
proof -
  obtain start rest where r: "CountAndMakeRun cmp xs = (start, rest)"
    by (cases "CountAndMakeRun cmp xs")
  have "set (start @ rest) = set xs"
    using mset_CountAndMakeRun [OF r] by (metis mset_append set_mset_mset)
  then have k: "\<forall>a \<in> set (start @ rest). \<forall>b \<in> set (start @ rest).
             SortCompare cmp a b < 0 \<longleftrightarrow> f a < f b"
    using assms by simp
  note b = BinaryInsertionSort_sorted [OF k CountAndMakeRun_sorted(1) [OF assms r], of c]
  show "sorted (map f (Array_sort cmp xs))"
    using b by (simp add: Array_sort_def r)
  show "filter (\<lambda>v. f v = c) (Array_sort cmp xs) = filter (\<lambda>v. f v = c) xs"
    using b CountAndMakeRun_sorted(2) [OF assms r, of c] by (simp add: Array_sort_def r)
qed

lemma Array_sort_stable_sort:
  assumes "\<forall>a \<in> set xs. \<forall>b \<in> set xs. SortCompare cmp a b < 0 \<longleftrightarrow> f a < (f b :: int)"
  shows "Array_sort cmp xs = sort_key f xs"
proof (rule properties_for_sort_key [symmetric])
  show "mset (Array_sort cmp xs) = mset xs" by (rule mset_Array_sort)
  show "sorted (map f (Array_sort cmp xs))" by (rule Array_sort_sorted(1) [OF assms])
  show "filter (\<lambda>x. f k = f x) (Array_sort cmp xs) = filter (\<lambda>x. f k = f x) xs" for k
    using Array_sort_sorted(2) [OF assms, of "f k"] by (simp add: eq_commute)
qed

lemma hd_stable_sorted:
  assumes "sorted (map f ys)" and "mset ys = mset xs" and "xs \<noteq> []"
    and "\<And>c. filter (\<lambda>v. f v = c) ys = filter (\<lambda>v. f v = c) xs"
  shows "hd ys = hd (filter (\<lambda>v. f v = Min (f ` set xs)) xs)"
proof -
  have ne: "ys \<noteq> []" using assms(2,3) by auto
  then obtain h t where ys: "ys = h # t" by (cases ys) auto
  have set: "set ys = set xs" using assms(2) by (metis set_mset_mset)
  have "\<forall>y \<in> set ys. f h \<le> f y" using assms(1) ys by auto
  then have "Min (f ` set xs) = f h"
    using set ys by (intro Min_eqI) auto
  moreover have "hd (filter (\<lambda>v. f v = f h) ys) = h" by (simp add: ys)
  moreover have "hd ys = h" by (simp add: ys)
  ultimately show ?thesis by (simp only: assms(4) [of "f h"])
qed

lemmas sort_eval = Array_sort_def CountAndMakeRun_def BinaryInsertionSort_def insert_pivot_def
  insertion_point.simps SortCompare_def Let_def

lemma set_Array_sort: "set (Array_sort f xs) = set xs"
  using mset_Array_sort [of f xs] by (metis set_mset_mset)

lemma Array_sort_Nil_iff: "Array_sort f xs = [] \<longleftrightarrow> xs = []"
  using mset_Array_sort [of f xs] by (metis mset_zero_iff)

lemma by_date_desc_key:
  assumes "\<forall>e \<in> set xs. Date_parse tza (date e) \<noteq> None"
  shows "\<forall>a \<in> set xs. \<forall>b \<in> set xs.
           SortCompare (by_date_desc tza) a b < 0 \<longleftrightarrow> - time_of tza a < - time_of tza b"
  using assms by (auto simp: SortCompare_by_date)

lemma sorted_Array_sort:
  assumes "\<forall>e \<in> set xs. Date_parse tza (date e) \<noteq> None"
  shows "sorted_wrt (\<lambda>a b. time_of tza b \<le> time_of tza a) (Array_sort (by_date_desc tza) xs)"
  using Array_sort_sorted(1) [OF by_date_desc_key [OF assms]] by (simp add: sorted_map)

lemma hd_Array_sort:
  assumes "\<forall>e \<in> set xs. Date_parse tza (date e) \<noteq> None" and "xs \<noteq> []"
  shows "hd (Array_sort (by_date_desc tza) xs)
           = hd (filter (\<lambda>v. - time_of tza v = Min ((\<lambda>v. - time_of tza v) ` set xs)) xs)"
  using Array_sort_sorted [OF by_date_desc_key [OF assms(1)]] mset_Array_sort assms(2)
  by (intro hd_stable_sorted) auto

lemma hd_Array_sort_append_earlier:
  assumes "\<forall>x \<in> set xs. Date_parse tza (date x) \<noteq> None" and "Date_parse tza (date e) \<noteq> None"
    and "\<exists>x \<in> set xs. time_of tza e < time_of tza x"
  shows "hd (Array_sort (by_date_desc tza) (xs @ [e])) = hd (Array_sort (by_date_desc tza) xs)"
proof -
  let ?f = "\<lambda>v. - time_of tza v"
  have ne: "xs \<noteq> []" using assms(3) by auto
  have all: "\<forall>x \<in> set (xs @ [e]). Date_parse tza (date x) \<noteq> None" using assms(1,2) by simp
  obtain x where x: "x \<in> set xs" "?f x < ?f e" using assms(3) by auto
  have "Min (?f ` set xs) \<le> ?f x" using x(1) by (intro Min_le) auto
  then have lt: "Min (?f ` set xs) < ?f e" using x(2) by simp
  have "Min (?f ` set (xs @ [e])) = min (?f e) (Min (?f ` set xs))"
    using ne by (simp add: Min_insert)
  then have m: "Min (?f ` set (xs @ [e])) = Min (?f ` set xs)" using lt by simp
  have "filter (\<lambda>v. ?f v = Min (?f ` set (xs @ [e]))) (xs @ [e])
          = filter (\<lambda>v. ?f v = Min (?f ` set xs)) xs"
    unfolding m using lt by simp
  then show ?thesis
    using hd_Array_sort [OF all] hd_Array_sort [OF assms(1) ne] by simp
qed

lemma updateUI_list:
  assumes "totalExpenditureEl r = Some t" and "expenseListEl r = Some l"
    and "expenses st \<noteq> []"
  shows "list_children (snd (updateUI r st))
           = map (expense_element (LocalTZA st))
               (Array_sort (by_date_desc (LocalTZA st)) (expenses st))"
  using assms by (simp add: updateUI_def Let_def foldl_append_children)

lemma shown_time_expense_element: "shown_time (expense_element tza e) = Date_parse tza (date e)"
  by (simp add: shown_time_def expense_element_def)

lemma newest_first_sorted:
  assumes "sorted_wrt (\<lambda>a b. time_of tza b \<le> time_of tza a) xs"
    and "\<forall>e \<in> set xs. Date_parse tza (date e) \<noteq> None"
  shows "newest_first (map (expense_element tza) xs)"
proof -
  have "sorted_wrt (\<lambda>a b. case (shown_time (expense_element tza a), shown_time (expense_element tza b)) of
                          (Some x, Some y) \<Rightarrow> y \<le> x | _ \<Rightarrow> True) xs"
    using assms(1)
    by (rule sorted_wrt_mono_rel [rotated])
       (auto simp: shown_time_expense_element time_of_def split: option.splits)
  then show ?thesis
    by (simp add: newest_first_def sorted_wrt_map)
qed

lemma earlier_time_of: "earlier tza a b \<Longrightarrow> time_of tza a < time_of tza b"
  by (cases "Date_parse tza (date a)"; cases "Date_parse tza (date b)")
     (simp_all add: earlier_def time_of_def)

lemmas date_eval = Date_parse_def three_numbers_def legacy_date_def IsMonth_def IsDay_def
  MakeDay_def TimeClip_def is_digit_def digits_value_def digit_value_def Let_def
  days_in_month_def is_leap_year_def days_from_civil_def

lemma Date_parse_examples:
  "Date_parse tza ''2024-01-05'' = Some 1704412800000"
  "Date_parse tza ''2024-01-20'' = Some 1705708800000"
  "Date_parse tza ''2024-01-10'' = Some 1704844800000"
  "Date_parse tza ''2024-02-30'' = Some 1709251200000"
  "Date_parse tza ''abc'' = None"
  by (simp_all add: date_eval)

lemma Date_parse_long_years:
  "Date_parse (\<lambda>t. 0) ''10000-01-01'' = Some 253402300800000"
  "Date_parse (\<lambda>t. 3600000) ''10000-01-01'' = Some 253402297200000"
  "Date_parse (\<lambda>t. 0) ''275760-09-13'' = Some 8640000000000000"
  "Date_parse (\<lambda>t. - 28800000) ''275760-09-13'' = None"
  "Date_parse (\<lambda>t. 0) ''999999-01-01'' = None"
  by (simp_all add: date_eval)

lemma showMessage_list: "list_children (snd (showMessage r m st)) = list_children st"
  by (simp add: showMessage_def split: option.splits)

lemma showPage_list: "list_children (snd (showPage r p st)) = list_children st"
  by (simp add: showPage_eq split: option.splits)

lemma handleFormSubmit_list:
  assumes "valid_submission (form st)"
    and "totalExpenditureEl r = Some t" and "expenseListEl r = Some l"
  shows "list_children (snd (handleFormSubmit r now today st))
           = map (expense_element (LocalTZA st))
               (Array_sort (by_date_desc (LocalTZA st))
                  (expenses (snd (handleFormSubmit r now today st))))"
proof -
  let ?new = "\<lparr>expense_id = now, description = description_value (form st),
                amount = parseFloat (amount_value (form st)),
                category = category_value (form st), date = date_value (form st)\<rparr>"
  let ?st3 = "setDefaultDate r today (st\<lparr>expenses := expenses st @ [?new], form := form_defaults st\<rparr>)"
  let ?L = "map (expense_element (LocalTZA st))
              (Array_sort (by_date_desc (LocalTZA st)) (expenses st @ [?new]))"
  have e3: "expenses ?st3 = expenses st @ [?new]" "LocalTZA ?st3 = LocalTZA st"
    by (simp_all add: setDefaultDate_def)
  have u: "list_children (snd (updateUI r ?st3)) = ?L"
    using updateUI_list [OF assms(2,3), of ?st3] e3 by simp
  have ret: "fst (updateUI r ?st3) = Returned"
    using assms(2,3) by (simp add: updateUI_def Let_def)
  obtain st4 where st4: "updateUI r ?st3 = (Returned, st4)"
    using ret by (cases "updateUI r ?st3") auto
  have l4: "list_children st4 = ?L" using u st4 by simp
  have "list_children (snd (handleFormSubmit r now today st)) = ?L"
  proof (cases "messageBox r")
    case None
    then show ?thesis
      using assms(1) st4 l4 by (simp add: handleFormSubmit_def valid_submission_def Let_def)
  next
    case (Some mb)
    let ?st4' = "set_backgroundColor mb ''#22c55e'' st4"
    have l4': "list_children ?st4' = ?L" using l4 by (simp add: set_backgroundColor_def)
    obtain out5 st5 where m: "showMessage r ''Expense added successfully!'' ?st4' = (out5, st5)"
      by (cases "showMessage r ''Expense added successfully!'' ?st4'") auto
    have l5: "list_children st5 = ?L"
      using showMessage_list [of r "''Expense added successfully!''" ?st4'] m l4' by simp
    show ?thesis
      using assms(1) st4 Some m l5 showPage_list [of r "Some ''dashboard-page''" st5]
      by (cases out5) (simp_all add: handleFormSubmit_def valid_submission_def Let_def)
  qed
  then show ?thesis
    using handleFormSubmit_valid [OF assms(1), of r now today] by simp
qed

text \<open>
  What a session stores through the date control parses, for years of four digits on
  every engine; and the list shows the array after every event.
\<close>

lemma days_from_civil_bounds:
  assumes "0 \<le> y" and "y \<le> 9999" and "1 \<le> m" and "m \<le> 12"
  shows "- 1000000 \<le> days_from_civil y m 1" and "days_from_civil y m 1 \<le> 3000000"
proof -
  define y' where "y' = (if m \<le> 2 then y - 1 else y)"
  define era where "era = y' div 400"
  define yoe where "yoe = y' - era * 400"
  define mp where "mp = (if 2 < m then m - 3 else m + 9)"
  define doy where "doy = (153 * mp + 2) div 5 + 1 - 1"
  define doe where "doe = yoe * 365 + yoe div 4 - yoe div 100 + doy"
  have d: "days_from_civil y m 1 = era * 146097 + doe - 719468"
    by (simp add: days_from_civil_def Let_def y'_def era_def yoe_def mp_def doy_def doe_def)
  have y': "- 1 \<le> y'" "y' \<le> 9999" using assms by (auto simp: y'_def)
  have era: "- 1 \<le> era" "era \<le> 24"
    using zdiv_mono1 [of "- 1" y' 400] zdiv_mono1 [of y' 9999 400] y' by (simp_all add: era_def)
  have yoe: "0 \<le> yoe" "yoe \<le> 399"
    by (simp_all add: yoe_def era_def minus_div_mult_eq_mod)
  have mp: "0 \<le> mp" "mp \<le> 11" using assms by (auto simp: mp_def)
  have doy: "0 \<le> doy" "doy \<le> 337"
    using mp zdiv_mono1 [of "153 * mp + 2" "153 * 11 + 2" 5] by (simp_all add: doy_def)
  have q: "0 \<le> yoe div 4" "yoe div 4 \<le> 99" "0 \<le> yoe div 100" "yoe div 100 \<le> yoe div 4"
    using yoe zdiv_mono1 [of yoe 399 4] zdiv_mono2 [of yoe 4 100] by simp_all
  have doe: "0 \<le> doe" "doe \<le> 146096"
    using yoe doy q by (simp_all add: doe_def)
  show "- 1000000 \<le> days_from_civil y m 1" "days_from_civil y m 1 \<le> 3000000"
    using era doe by (simp_all add: d)
qed


lemma days_from_civil_day: "days_from_civil y m d = days_from_civil y m 1 + (d - 1)"
  by (simp add: days_from_civil_def Let_def)

lemma digit_value_bound: "is_digit c \<Longrightarrow> digit_value c < 10"
  by (auto simp: is_digit_def digit_value_def)

lemma digits_value_bound: "list_all is_digit ds \<Longrightarrow> digits_value ds < 10 ^ length ds"
proof (induction ds rule: rev_induct)
  case Nil
  show ?case by (simp add: digits_value_def)
next
  case (snoc c ds)
  have "digits_value (ds @ [c]) = 10 * digits_value ds + digit_value c"
    by (simp add: digits_value_def)
  moreover have "digit_value c < 10" using snoc.prems by (simp add: digit_value_bound)
  moreover have "digits_value ds < 10 ^ length ds" using snoc by simp
  ultimately show ?case by simp
qed

lemma three_numbers_shape:
  assumes "three_numbers s = Some (a, b, c)"
  shows "s = a @ ''-'' @ b @ ''-'' @ c" and "list_all is_digit a"
proof -
  obtain t where t: "dropWhile is_digit s = CHR ''-'' # t" and a: "a = takeWhile is_digit s"
    using assms by (auto simp: three_numbers_def Let_def split: list.splits if_splits)
  obtain u where u: "dropWhile is_digit t = CHR ''-'' # u" and b: "b = takeWhile is_digit t"
    and c: "c = u"
    using assms t by (auto simp: three_numbers_def Let_def split: list.splits if_splits)
  have "s = takeWhile is_digit s @ dropWhile is_digit s" by simp
  also have "\<dots> = a @ CHR ''-'' # (takeWhile is_digit t @ dropWhile is_digit t)"
    by (simp only: t a takeWhile_dropWhile_id)
  finally show "s = a @ ''-'' @ b @ ''-'' @ c" by (simp add: u b c)
  show "list_all is_digit a"
    by (auto simp: a list_all_iff dest: set_takeWhileD)
qed

lemma valid_date_parses:
  assumes "valid_date_string s" and "length s \<le> 10"
  shows "Date_parse tza s \<noteq> None"
proof -
  obtain a b c where n: "three_numbers s = Some (a, b, c)"
    using assms(1) by (auto simp: valid_date_string_def split: option.splits)
  define y where "y = int (digits_value a)"
  define m where "m = int (digits_value b)"
  define d where "d = int (digits_value c)"
  have v: "4 \<le> length a" "0 < y" "length b = 2" "length c = 2" "1 \<le> m" "m \<le> 12" "1 \<le> d"
    "d \<le> days_in_month y m"
    using assms(1) by (simp_all add: valid_date_string_def n Let_def y_def m_def d_def)
  have "length s = length (a @ ''-'' @ b @ ''-'' @ c)"
    using three_numbers_shape(1) [OF n] by (rule arg_cong)
  then have "length s = length a + length b + length c + 2" by simp
  then have la: "length a = 4" using v(1,3,4) assms(2) by simp
  have "digits_value a < 10 ^ 4"
    using digits_value_bound [OF three_numbers_shape(2) [OF n]] by (simp add: la)
  then have y: "y \<le> 9999" by (simp add: y_def)
  have d31: "d \<le> 31" using v(8) by (auto simp: days_in_month_def split: if_splits)
  have b: "- 1000000 \<le> days_from_civil y m 1" "days_from_civil y m 1 \<le> 3000000"
    using days_from_civil_bounds [of y m] v(2,5,6) y by simp_all
  have "\<bar>MakeDay y m d * 86400000\<bar> \<le> 8640000000000000"
    using b v(7) d31 by (simp add: MakeDay_def abs_le_iff)
  then have t: "TimeClip (MakeDay y m d * 86400000) \<noteq> None"
    by (simp add: TimeClip_def)
  have c: "IsMonth m" "IsDay d" using v(5,6,7) d31 by (simp_all add: IsMonth_def IsDay_def)
  have "Date_parse tza s = TimeClip (MakeDay y m d * 86400000)"
    using c la v(3,4) unfolding y_def m_def d_def
    by (simp add: Date_parse_def n Let_def)
  then show ?thesis using t by simp
qed

lemma session_dates_valid:
  assumes "dateInput (script_refs (elems doc)) \<noteq> None"
  shows "\<forall>e \<in> set (expenses (session today doc evs)). valid_date_string (date e)"
proof -
  have "date_value (entered (script_refs (elems doc)) v) \<noteq> []
          \<Longrightarrow> valid_date_string (date_value (entered (script_refs (elems doc)) v))" for v
    using assms by (auto simp: entered_def date_control_value_def)
  then show ?thesis
    by (auto simp: session_records valid_submission_def split: event.splits if_splits)
qed

lemma session_dates_short:
  assumes "list_all four_digit_years evs"
  shows "\<forall>e \<in> set (expenses (session today doc evs)). length (date e) \<le> 10"
proof -
  have "length (date_value (entered r v)) \<le> length (date_value v)" for r v
    by (simp add: entered_def date_control_value_def)
  then have "length (date_value (entered r v)) \<le> 10" if "length (date_value v) \<le> 10" for r v
    using that order_trans by blast
  then show ?thesis
    using assms
    by (auto simp: session_records list_all_iff four_digit_years_def
             split: event.splits if_splits)
qed


lemma showMessage_LocalTZA: "LocalTZA (snd (showMessage r m st)) = LocalTZA st"
  by (simp add: showMessage_def split: option.splits)

lemma showPage_LocalTZA: "LocalTZA (snd (showPage r p st)) = LocalTZA st"
  by (simp add: showPage_eq split: option.splits)

lemma updateUI_LocalTZA: "LocalTZA (snd (updateUI r st)) = LocalTZA st"
  by (simp add: updateUI_def Let_def foldl_append_children split: option.splits)

lemma hide_timeout_LocalTZA: "LocalTZA (hide_timeout r st) = LocalTZA st"
  by (simp add: hide_timeout_def split: option.splits)

lemma handleFormSubmit_LocalTZA:
  "LocalTZA (snd (handleFormSubmit r now today st)) = LocalTZA st"
proof -
  have m: "LocalTZA st1 = LocalTZA st0" if "showMessage r m st0 = (out, st1)" for m st0 out st1
    using showMessage_LocalTZA [of r m st0] that by simp
  have u: "LocalTZA st1 = LocalTZA st0" if "updateUI r st0 = (out, st1)" for st0 out st1
    using updateUI_LocalTZA [of r st0] that by simp
  show ?thesis
    by (auto simp: handleFormSubmit_def Let_def setDefaultDate_def set_backgroundColor_def
                showPage_LocalTZA
             split: prod.splits outcome.splits option.splits
             dest!: m u)
qed

lemma step_LocalTZA: "LocalTZA (step r st ev) = LocalTZA st"
  by (cases ev)
     (simp_all add: step_def handleFormSubmit_LocalTZA showPage_LocalTZA hide_timeout_LocalTZA)

lemma handleFormSubmit_invalid_list:
  assumes "\<not> valid_submission (form st)"
  shows "list_children (snd (handleFormSubmit r now today st)) = list_children st"
  using assms showMessage_list [of r "''Please fill in all fields.''" st]
  by (auto simp: handleFormSubmit_def valid_submission_def set_backgroundColor_def
           split: prod.splits outcome.splits option.splits)

lemma hide_timeout_list: "list_children (hide_timeout r st) = list_children st"
  by (simp add: hide_timeout_def split: option.splits)

lemma step_list_rendered:
  assumes "totalExpenditureEl r = Some t" and "expenseListEl r = Some l"
    and "list_rendered st"
  shows "list_rendered (step r st ev)"
proof (cases ev)
  case (Submit v now today)
  let ?st = "st\<lparr>form := entered r v\<rparr>"
  show ?thesis
  proof (cases "valid_submission (entered r v)")
    case True
    then have "valid_submission (form ?st)" by simp
    from handleFormSubmit_list [OF this assms(1,2), of now today]
    show ?thesis
      by (simp add: list_rendered_def step_def Submit handleFormSubmit_LocalTZA)
  next
    case False
    then have n: "\<not> valid_submission (form ?st)" by simp
    show ?thesis
      using assms(3) handleFormSubmit_invalid_list [OF n, of r now today]
        handleFormSubmit_invalid(1) [OF n, of r now today]
      by (simp add: list_rendered_def step_def Submit handleFormSubmit_LocalTZA)
  qed
next
  case (NavClick k)
  then show ?thesis
    using assms(3)
    by (simp add: list_rendered_def step_def showPage_list showPage_expenses_snd showPage_LocalTZA)
next
  case Timeout
  then show ?thesis
    using assms(3)
    by (simp add: list_rendered_def step_def hide_timeout_list hide_timeout_expenses
          hide_timeout_LocalTZA)
qed

lemma session_list_rendered:
  assumes "totalExpenditureEl (script_refs (elems doc)) = Some t"
    and "expenseListEl (script_refs (elems doc)) = Some l"
  shows "list_rendered (session today doc evs)"
proof -
  have "list_rendered (run r st evs)"
    if "totalExpenditureEl r = Some t" "expenseListEl r = Some l" "list_rendered st" for r st
    using that(3)
    by (induction evs rule: rev_induct)
       (simp_all add: run_def step_list_rendered [OF that(1,2)])
  moreover have "list_rendered (snd (DOMContentLoaded today doc))"
    by (simp add: list_rendered_def DOMContentLoaded_expenses)
  ultimately show ?thesis using assms by (simp add: session_def)
qed

lemma session_LocalTZA: "LocalTZA (session today doc evs) = LocalTZA doc"
proof -
  have "LocalTZA (run r st evs) = LocalTZA st" for r st
    by (induction evs rule: rev_induct) (simp_all add: run_def step_LocalTZA)
  moreover have "LocalTZA (snd (DOMContentLoaded today doc)) = LocalTZA doc"
    by (auto simp: DOMContentLoaded_def Let_def setDefaultDate_def updateUI_LocalTZA
             split: prod.splits outcome.splits
             dest!: arg_cong [where f = "\<lambda>p. LocalTZA (snd p)"]
             simp: showPage_LocalTZA)
  ultimately show ?thesis by (simp add: session_def)
qed

lemma session_list_sorted:
  assumes "totalExpenditureEl (script_refs (elems doc)) = Some t"
    and "expenseListEl (script_refs (elems doc)) = Some l"
    and "dateInput (script_refs (elems doc)) \<noteq> None"
    and "list_all four_digit_years evs"
    and "expenses (session today doc evs) \<noteq> []"
  shows "newest_first (list_children (session today doc evs))"
proof -
  let ?S = "session today doc evs"
  have p: "\<forall>e \<in> set (expenses ?S). Date_parse (LocalTZA ?S) (date e) \<noteq> None"
  proof
    fix e assume e: "e \<in> set (expenses ?S)"
    have "valid_date_string (date e)"
      using session_dates_valid [OF assms(3), of today evs] e by simp
    moreover have "length (date e) \<le> 10"
      using session_dates_short [OF assms(4), of today doc] e by simp
    ultimately show "Date_parse (LocalTZA ?S) (date e) \<noteq> None"
      by (rule valid_date_parses)
  qed
  have "list_children ?S = map (expense_element (LocalTZA ?S))
                             (Array_sort (by_date_desc (LocalTZA ?S)) (expenses ?S))"
    using session_list_rendered [OF assms(1,2), of today evs] assms(5)
    by (simp add: list_rendered_def)
  moreover have "newest_first (map (expense_element (LocalTZA ?S))
                             (Array_sort (by_date_desc (LocalTZA ?S)) (expenses ?S)))"
    using sorted_Array_sort [OF p] p by (intro newest_first_sorted) (simp_all add: set_Array_sort)
  ultimately show ?thesis by simp
qed

subsection \<open>Form intake\<close>

text \<open>
  C1. A submission with a non-empty description, an amount string that parses to a
  number other than NaN and zero, and a non-empty date appends exactly one record: the
  array grows by one, and the new record holds the submitted description, category and
  date and the parsed amount.
\<close>

theorem submit_appends_record:
  assumes "description_value (form st) \<noteq> []"
    and "truthy (parseFloat (amount_value (form st)))"
    and "date_value (form st) \<noteq> []"
  shows "length (expenses (snd (handleFormSubmit r now today st))) = length (expenses st) + 1
       \<and> expenses (snd (handleFormSubmit r now today st)) =
           expenses st @ [\<lparr>expense_id = now, description = description_value (form st),
                           amount = parseFloat (amount_value (form st)),
                           category = category_value (form st), date = date_value (form st)\<rparr>]"
  using assms handleFormSubmit_valid [of st r now today] by (simp add: valid_submission_def)

theorem submit_appends_record_witness:
  "description_value (form (example_document\<lparr>form := example_values ''Coffee'' ''4.50'' ''food'' ''2024-01-10''\<rparr>)) \<noteq> []
   \<and> truthy (parseFloat (amount_value (form (example_document\<lparr>form := example_values ''Coffee'' ''4.50'' ''food'' ''2024-01-10''\<rparr>))))
   \<and> date_value (form (example_document\<lparr>form := example_values ''Coffee'' ''4.50'' ''food'' ''2024-01-10''\<rparr>)) \<noteq> []
   \<and> expenses (snd (handleFormSubmit example_refs 1704880000000 1704880000001
         (example_document\<lparr>form := example_values ''Coffee'' ''4.50'' ''food'' ''2024-01-10''\<rparr>))) =
       [\<lparr>expense_id = 1704880000000, description = ''Coffee'', amount = Fin (9 / 2),
         category = ''food'', date = ''2024-01-10''\<rparr>]"
proof -
  let ?st = "example_document\<lparr>form := example_values ''Coffee'' ''4.50'' ''food'' ''2024-01-10''\<rparr>"
  have p: "parseFloat ''4.50'' = Fin (9 / 2)" by code_simp
  have h1: "description_value (form ?st) \<noteq> []" by (simp add: example_values_def)
  have h2: "truthy (parseFloat (amount_value (form ?st)))" by (simp add: example_values_def p truthy_def)
  have h3: "date_value (form ?st) \<noteq> []" by (simp add: example_values_def)
  show ?thesis
    using h1 h2 h3 submit_appends_record [OF h1 h2 h3, of example_refs 1704880000000 1704880000001]
    by (simp add: example_values_def example_document_def p)
qed

text \<open>
  C2. A submission with an empty description, or an amount that parses to NaN or to zero,
  or an empty date is rejected: the array, the form's values and the list stay as they
  were, and the message box of the document shows the fixed message, with the class
  \<^verbatim>\<open>show\<close> and the error colour.
\<close>

theorem invalid_submission_rejected:
  assumes "description_value (form st) = [] \<or> \<not> truthy (parseFloat (amount_value (form st)))
             \<or> date_value (form st) = []"
  shows "expenses (snd (handleFormSubmit r now today st)) = expenses st
       \<and> form (snd (handleFormSubmit r now today st)) = form st
       \<and> list_children (snd (handleFormSubmit r now today st)) = list_children st
       \<and> (\<forall>mb. messageBox r = Some mb \<and> mb < length (elems st) \<longrightarrow>
             fst (handleFormSubmit r now today st) = Returned
             \<and> textContent (elems (snd (handleFormSubmit r now today st)) ! mb)
                 = ''Please fill in all fields.''
             \<and> ''show'' \<in> set (classList (elems (snd (handleFormSubmit r now today st)) ! mb))
             \<and> backgroundColor (elems (snd (handleFormSubmit r now today st)) ! mb) = ''#ef4444'')"
proof -
  have inv: "\<not> valid_submission (form st)"
    using assms by (auto simp: valid_submission_def)
  have l: "list_children (snd (handleFormSubmit r now today st)) = list_children st"
    using assms showMessage_list [of r "''Please fill in all fields.''" st]
    by (auto simp: handleFormSubmit_def set_backgroundColor_def
             split: prod.splits outcome.splits option.splits)
  have "handleFormSubmit r now today st =
          (Returned, set_backgroundColor mb ''#ef4444'' (snd (showMessage r ''Please fill in all fields.'' st)))"
    if "messageBox r = Some mb" for mb
    using assms that by (auto simp: handleFormSubmit_def showMessage_def)
  then show ?thesis
    using l handleFormSubmit_invalid [OF inv, of r now today]
    by (simp add: set_backgroundColor_def showMessage_def classList_add_def)
qed

theorem invalid_submission_rejected_witness:
  "\<not> truthy (parseFloat (amount_value (form (example_state (example_values ''Tea'' ''0'' ''food'' ''2024-01-10'')))))
   \<and> messageBox example_refs = Some 9
   \<and> 9 < length (elems (example_state (example_values ''Tea'' ''0'' ''food'' ''2024-01-10'')))
   \<and> expenses (snd (handleFormSubmit example_refs 1704880000000 1704880000001
         (example_state (example_values ''Tea'' ''0'' ''food'' ''2024-01-10'')))) = []
   \<and> form (snd (handleFormSubmit example_refs 1704880000000 1704880000001
         (example_state (example_values ''Tea'' ''0'' ''food'' ''2024-01-10''))))
       = example_values ''Tea'' ''0'' ''food'' ''2024-01-10''
   \<and> textContent (elems (snd (handleFormSubmit example_refs 1704880000000 1704880000001
         (example_state (example_values ''Tea'' ''0'' ''food'' ''2024-01-10'')))) ! 9)
       = ''Please fill in all fields.''"
proof -
  let ?st = "example_state (example_values ''Tea'' ''0'' ''food'' ''2024-01-10'')"
  have p: "parseFloat ''0'' = Fin 0" by code_simp
  have h1: "description_value (form ?st) = [] \<or> \<not> truthy (parseFloat (amount_value (form ?st)))
             \<or> date_value (form ?st) = []"
    by (simp add: example_state_def example_values_def p truthy_def)
  have h2: "messageBox example_refs = Some 9" by (simp add: example_refs_eq)
  have h3: "9 < length (elems ?st)" by (simp add: example_state_def example_document_def)
  show ?thesis
    using h2 h3 invalid_submission_rejected [OF h1, of example_refs 1704880000000 1704880000001]
    by (simp add: example_state_def example_values_def example_document_def p truthy_def)
qed



subsection \<open>Switching views\<close>

text \<open>
  C5 (amended). A call of \<^verbatim>\<open>showPage\<close> whose page id is the id of no view is not a
  silent no-op: it deactivates every view, so that no view is active afterwards, and it
  ends in a \<^verbatim>\<open>TypeError\<close> exactly when the id matches no element at all. The array,
  the list and the form stay as they were; and when the id matches no element, so does
  every element that is not a view, the navigation links included.
\<close>

theorem showPage_unknown_id:
  assumes "\<forall>i \<in> set (pages r). getElementById p (elems st) \<noteq> Some i"
    and "refs_in_range r st"
  shows "(\<forall>j \<in> set (pages r). \<not> is_active (elems (snd (showPage r (Some p) st)) ! j))
       \<and> (fst (showPage r (Some p) st) = TypeError \<longleftrightarrow> getElementById p (elems st) = None)
       \<and> (fst (showPage r (Some p) st) = Returned \<longleftrightarrow> getElementById p (elems st) \<noteq> None)
       \<and> length (elems (snd (showPage r (Some p) st))) = length (elems st)
       \<and> expenses (snd (showPage r (Some p) st)) = expenses st
       \<and> list_children (snd (showPage r (Some p) st)) = list_children st
       \<and> form (snd (showPage r (Some p) st)) = form st
       \<and> (getElementById p (elems st) = None \<longrightarrow>
            (\<forall>j < length (elems st). j \<notin> set (pages r) \<longrightarrow>
               elems (snd (showPage r (Some p) st)) ! j = elems st ! j))"
proof -
  let ?es1 = "deactivate_pages r (elems st)"
  have range: "j < length (elems st)" if "j \<in> set (pages r)" for j
    using that assms(2) by (auto simp: refs_in_range_def list_all_iff)
  have off: "\<not> is_active (?es1 ! j)" if "j \<in> set (pages r)" for j
    using that range [OF that] by (simp add: deactivate_pages_nth is_active_removed)
  have views: "\<not> is_active (elems (snd (showPage r (Some p) st)) ! j)" if j: "j \<in> set (pages r)" for j
  proof (cases "getElementById p (elems st)")
    case None
    then have "showPage r (Some p) st = (TypeError, st\<lparr>elems := ?es1\<rparr>)"
      by (intro showPage_no_element) simp
    then show ?thesis using off [OF j] by simp
  next
    case (Some i)
    let ?es2 = "?es1[i := classList_add [''active''] (?es1 ! i)]"
    let ?es3 = "foldl (\<lambda>es link. es[link := mark_link (Some p) (es ! link)]) ?es2 (navLinks r)"
    have eq: "showPage r (Some p) st = (Returned, st\<lparr>elems := ?es3\<rparr>)"
      using Some by (intro showPage_element) simp
    have ne: "j \<noteq> i" using assms(1) j Some by auto
    have "map is_active ?es3 = map is_active ?es2"
      by (rule map_foldl_update) (simp add: is_active_mark_link)
    moreover have "j < length ?es3"
      using range [OF j] by (simp only: length_foldl_update length_list_update deactivate_pages_length)
    ultimately have "is_active (?es3 ! j) = is_active (?es2 ! j)" by (rule nth_map_eq)
    also have "\<dots> = is_active (?es1 ! j)" using ne by simp
    finally show ?thesis using off [OF j] eq by simp
  qed
  have rest: "elems (snd (showPage r (Some p) st)) ! j = elems st ! j"
    if "getElementById p (elems st) = None" "j < length (elems st)" "j \<notin> set (pages r)" for j
  proof -
    have "showPage r (Some p) st = (TypeError, st\<lparr>elems := ?es1\<rparr>)"
      using that(1) by (intro showPage_no_element) simp
    then show ?thesis using that(2,3) by (simp add: deactivate_pages_nth)
  qed
  have raised: "fst (showPage r (Some p) st) = TypeError \<longleftrightarrow> getElementById p (elems st) = None"
    by (simp add: showPage_eq split: option.splits)
  have returned: "fst (showPage r (Some p) st) = Returned \<longleftrightarrow> getElementById p (elems st) \<noteq> None"
    by (simp add: showPage_eq split: option.splits)
  show ?thesis
    using views rest raised returned
    by (simp add: showPage_length showPage_expenses_snd showPage_list showPage_form_snd)
qed

theorem showPage_unknown_id_witness:
  "getElementById ''settings-page'' (elems example_document) = None
   \<and> refs_in_range example_refs example_document
   \<and> fst (showPage example_refs (Some ''settings-page'') example_document) = TypeError
   \<and> \<not> is_active (elems (snd (showPage example_refs (Some ''settings-page'') example_document)) ! 2)
   \<and> \<not> is_active (elems (snd (showPage example_refs (Some ''settings-page'') example_document)) ! 3)
   \<and> elems (snd (showPage example_refs (Some ''settings-page'') example_document)) ! 0
       = elems example_document ! 0"
proof -
  have n: "getElementById ''settings-page'' (elems example_document) = None" by code_simp
  then have h1: "\<forall>i \<in> set (pages example_refs).
      getElementById ''settings-page'' (elems example_document) \<noteq> Some i"
    by simp
  have h2: "refs_in_range example_refs example_document" by code_simp
  have p: "pages example_refs = [2, 3]" by (simp add: example_refs_eq)
  have l: "length (elems example_document) = 10" by (simp add: example_document_def)
  show ?thesis
    using n h2 showPage_unknown_id [OF h1 h2] by (simp add: p l)
qed

text \<open>
  The claim as stated fails: with no element \<^verbatim>\<open>settings-page\<close> the active view loses
  its class and the call ends in a \<^verbatim>\<open>TypeError\<close>.
\<close>

theorem showPage_unknown_id_counterexample:
  "getElementById ''settings-page'' (elems example_document) = None
   \<and> is_active (elems example_document ! 2)
   \<and> \<not> is_active (elems (snd (showPage example_refs (Some ''settings-page'') example_document)) ! 2)
   \<and> fst (showPage example_refs (Some ''settings-page'') example_document) = TypeError"
  by code_simp

text \<open>
  C6 (amended). After a call of \<^verbatim>\<open>showPage\<close> whose page id is the id of a view, that
  view is the one active view, and a navigation link is marked active exactly when its
  \<^verbatim>\<open>data-page\<close> is the requested id.
\<close>

theorem showPage_known_view:
  assumes "getElementById p (elems st) = Some i" and "i \<in> set (pages r)"
    and "refs_in_range r st"
  shows "fst (showPage r (Some p) st) = Returned
       \<and> {j \<in> set (pages r). is_active (elems (snd (showPage r (Some p) st)) ! j)} = {i}
       \<and> {l \<in> set (navLinks r). marked_active (elems (snd (showPage r (Some p) st)) ! l)}
           = {l \<in> set (navLinks r). dataset_page (elems st ! l) = Some p}"
proof -
  let ?es1 = "deactivate_pages r (elems st)"
  let ?es2 = "?es1[i := classList_add [''active''] (?es1 ! i)]"
  let ?es3 = "foldl (\<lambda>es link. es[link := mark_link (Some p) (es ! link)]) ?es2 (navLinks r)"
  have eq: "showPage r (Some p) st = (Returned, st\<lparr>elems := ?es3\<rparr>)"
    using assms(1) by (intro showPage_element) simp
  have i: "i < length (elems st)"
    using assms(1) by (simp add: getElementById_Some)
  have len2: "length ?es2 = length (elems st)"
    by (simp add: deactivate_pages_length)
  have act3: "is_active (?es3 ! j) = is_active (?es2 ! j)" if "j < length (elems st)" for j
  proof -
    have "map is_active ?es3 = map is_active ?es2"
      by (rule map_foldl_update) (simp add: is_active_mark_link)
    moreover have "j < length ?es3"
      using that by (simp only: length_foldl_update len2)
    ultimately show ?thesis by (rule nth_map_eq)
  qed
  have pages: "is_active (?es3 ! j) = (j = i)" if "j \<in> set (pages r)" for j
  proof -
    have j: "j < length (elems st)"
      using that assms(3) by (auto simp: refs_in_range_def list_all_iff)
    have "is_active (?es2 ! j) = (j = i)"
      using that j i
      by (cases "j = i")
         (simp_all add: deactivate_pages_length deactivate_pages_nth is_active_removed is_active_added)
    with act3 [OF j] show ?thesis by (simp only:)
  qed
  have data2: "dataset_page (?es2 ! l) = dataset_page (elems st ! l)" if "l < length (elems st)" for l
  proof -
    have "map dataset_page ?es1 = map dataset_page (elems st)"
      unfolding deactivate_pages_def
      by (rule map_foldl_update) (simp add: classList_remove_def)
    moreover have "l < length ?es1"
      using that by (simp only: deactivate_pages_length)
    ultimately have "dataset_page (?es1 ! l) = dataset_page (elems st ! l)"
      by (rule nth_map_eq)
    then show ?thesis
      using that by (cases "l = i") (simp_all add: deactivate_pages_length classList_add_def)
  qed
  have links: "marked_active (?es3 ! l) = (dataset_page (elems st ! l) = Some p)"
    if "l \<in> set (navLinks r)" for l
  proof -
    have l: "l < length (elems st)"
      using that assms(3) by (auto simp: refs_in_range_def list_all_iff)
    have l2: "l < length ?es2"
      using l by (simp only: len2)
    have "?es3 ! l = (if l \<in> set (navLinks r) then mark_link (Some p) (?es2 ! l) else ?es2 ! l)"
      by (rule nth_foldl_update [OF mark_link_idem l2])
    then have "?es3 ! l = mark_link (Some p) (?es2 ! l)"
      using that by (simp only: if_True)
    then have "marked_active (?es3 ! l) = (dataset_page (?es2 ! l) = Some p)"
      by (simp only: marked_active_mark_link)
    with data2 [OF l] show ?thesis by (simp only:)
  qed
  show ?thesis
    using assms(2) by (auto simp: eq pages links)
qed

theorem showPage_known_view_witness:
  "getElementById ''dashboard-page'' (elems example_document) = Some 3
   \<and> 3 \<in> set (pages example_refs)
   \<and> refs_in_range example_refs example_document
   \<and> {j \<in> set (pages example_refs).
        is_active (elems (snd (showPage example_refs (Some ''dashboard-page'') example_document)) ! j)} = {3}
   \<and> {l \<in> set (navLinks example_refs).
        marked_active (elems (snd (showPage example_refs (Some ''dashboard-page'') example_document)) ! l)} = {1}"
proof -
  have h1: "getElementById ''dashboard-page'' (elems example_document) = Some 3" by code_simp
  have h2: "3 \<in> set (pages example_refs)" by (simp add: example_refs_eq)
  have h3: "refs_in_range example_refs example_document" by code_simp
  have n: "{l \<in> set (navLinks example_refs). dataset_page (elems example_document ! l) = Some ''dashboard-page''} = {1}"
    by (auto simp: example_refs_eq example_document_def example_element_def)
  show ?thesis
    using h1 h2 h3 n showPage_known_view [OF h1 h2 h3] by simp
qed

text \<open>
  Not after any call: with the id of an element that is no view the call returns and no
  view is active.
\<close>

theorem showPage_known_view_counterexample:
  "fst (showPage example_refs (Some ''expense-list'') example_document) = Returned
   \<and> filter (\<lambda>j. is_active (elems (snd (showPage example_refs (Some ''expense-list'') example_document)) ! j))
        (pages example_refs) = []"
  by code_simp

subsection \<open>Rendering\<close>

text \<open>
  C7. After \<^verbatim>\<open>updateUI\<close>, on a document with the total and the list container, the
  list container shows the placeholder if and only if the array is empty. With an empty
  array the placeholder is its only child: the element \<^verbatim>\<open>empty-state\<close> of the document
  when there is one, and otherwise the paragraph the function creates. With records in
  the array the children are their entries, one for each.
\<close>

theorem placeholder_iff_empty:
  assumes "totalExpenditureEl r = Some t" and "expenseListEl r = Some l"
  shows "fst (updateUI r st) = Returned
       \<and> ((\<exists>c \<in> set (list_children (snd (updateUI r st))). is_placeholder c) \<longleftrightarrow> expenses st = [])
       \<and> (expenses st = [] \<longrightarrow>
            list_children (snd (updateUI r st))
              = [if emptyStateEl r then EmptyStateEl
                 else CreatedP ''empty-state'' ''text-slate-500 text-center py-4''
                        ''You have no expenses logged yet.''])
       \<and> (expenses st \<noteq> [] \<longrightarrow>
            mset (list_children (snd (updateUI r st)))
              = mset (map (expense_element (LocalTZA st)) (expenses st)))"
proof (cases "expenses st = []")
  case True
  then show ?thesis
    using assms by (simp add: updateUI_def Let_def is_placeholder_def)
next
  case False
  have l: "list_children (snd (updateUI r st))
             = map (expense_element (LocalTZA st))
                 (Array_sort (by_date_desc (LocalTZA st)) (expenses st))"
    by (rule updateUI_list [OF assms False])
  have "fst (updateUI r st) = Returned"
    using assms False by (simp add: updateUI_def Let_def)
  moreover have "\<not> is_placeholder c" if "c \<in> set (list_children (snd (updateUI r st)))" for c
    using that unfolding l by (auto simp: is_placeholder_def expense_element_def)
  moreover have "mset (list_children (snd (updateUI r st)))
      = mset (map (expense_element (LocalTZA st)) (expenses st))"
    unfolding l by (simp add: mset_Array_sort)
  ultimately show ?thesis using False by blast
qed

theorem placeholder_iff_empty_witness:
  "totalExpenditureEl example_refs = Some 6 \<and> expenseListEl example_refs = Some 7
   \<and> list_children (snd (updateUI example_refs example_document)) = [EmptyStateEl]
   \<and> list_children (snd (updateUI (example_refs\<lparr>emptyStateEl := False\<rparr>) example_document))
       = [CreatedP ''empty-state'' ''text-slate-500 text-center py-4''
            ''You have no expenses logged yet.'']
   \<and> \<not> (\<exists>c \<in> set (list_children (snd (updateUI example_refs
             (example_document\<lparr>expenses := [example_expense 1 ''Coffee'' ''2024-01-10'']\<rparr>)))).
           is_placeholder c)
   \<and> mset (list_children (snd (updateUI example_refs
             (example_document\<lparr>expenses := [example_expense 1 ''Coffee'' ''2024-01-10'']\<rparr>))))
       = {#expense_element (\<lambda>t. 0) (example_expense 1 ''Coffee'' ''2024-01-10'')#}"
proof -
  have h1: "totalExpenditureEl example_refs = Some 6" by (simp add: example_refs_eq)
  have h2: "expenseListEl example_refs = Some 7" by (simp add: example_refs_eq)
  have h1': "totalExpenditureEl (example_refs\<lparr>emptyStateEl := False\<rparr>) = Some 6"
    using h1 by simp
  have h2': "expenseListEl (example_refs\<lparr>emptyStateEl := False\<rparr>) = Some 7"
    using h2 by simp
  have e: "expenses example_document = []" by (simp add: example_document_def)
  have y: "emptyStateEl example_refs" by (simp add: example_refs_eq)
  show ?thesis
    using h1 h2 e y placeholder_iff_empty [OF h1 h2, of example_document]
      placeholder_iff_empty [OF h1' h2', of example_document]
      placeholder_iff_empty [OF h1 h2,
        of "example_document\<lparr>expenses := [example_expense 1 ''Coffee'' ''2024-01-10'']\<rparr>"]
    by simp
qed

text \<open>
  C4. The claim fails on the code at a store with a date that the engine does not read.
  A date control holds any valid date string, also one past 13 September 275760, the last
  day a time value reaches; such a date is an Invalid Date, every comparison with it is
  NaN, read as \<open>0\<close>, and the records on either side of it are not put in order. After
  submissions dated \<^verbatim>\<open>999999-01-01\<close>, \<^verbatim>\<open>2024-01-05\<close>, \<^verbatim>\<open>999999-01-02\<close> and
  \<^verbatim>\<open>2024-01-20\<close> the array is left in the order of entry, and the list shows the entry
  of 5 January above that of 20 January. The same happens at \<^verbatim>\<open>275760-09-13\<close> itself on
  a host west of Greenwich, where local midnight of that day is past the last time value.
\<close>

theorem list_unsorted_at_unreadable_date:
  "valid_date_string ''999999-01-01'' \<and> valid_date_string ''999999-01-02''
   \<and> list_children (example_session
      [Submit (example_values ''Far'' ''1'' ''food'' ''999999-01-01'') 1704880000001 1704880000001,
       NavClick 0,
       Submit (example_values ''Early'' ''1'' ''food'' ''2024-01-05'') 1704880000002 1704880000002,
       NavClick 0,
       Submit (example_values ''Farther'' ''1'' ''food'' ''999999-01-02'') 1704880000003 1704880000003,
       NavClick 0,
       Submit (example_values ''Late'' ''1'' ''food'' ''2024-01-20'') 1704880000004 1704880000004])
     = [ExpenseEl ''Far'' ''food'' None ''$1.00'',
        ExpenseEl ''Early'' ''food'' (Some 1704412800000) ''$1.00'',
        ExpenseEl ''Farther'' ''food'' None ''$1.00'',
        ExpenseEl ''Late'' ''food'' (Some 1705708800000) ''$1.00'']
   \<and> \<not> newest_first (list_children (example_session
      [Submit (example_values ''Far'' ''1'' ''food'' ''999999-01-01'') 1704880000001 1704880000001,
       NavClick 0,
       Submit (example_values ''Early'' ''1'' ''food'' ''2024-01-05'') 1704880000002 1704880000002,
       NavClick 0,
       Submit (example_values ''Farther'' ''1'' ''food'' ''999999-01-02'') 1704880000003 1704880000003,
       NavClick 0,
       Submit (example_values ''Late'' ''1'' ''food'' ''2024-01-20'') 1704880000004 1704880000004]))
   \<and> valid_date_string ''275760-09-13''
   \<and> list_children (session 1704880000000 (example_document\<lparr>LocalTZA := \<lambda>t. - 25200000\<rparr>)
      [Submit (example_values ''Early'' ''1'' ''food'' ''2024-01-05'') 1704880000002 1704880000002,
       NavClick 0,
       Submit (example_values ''Last'' ''1'' ''food'' ''275760-09-13'') 1704880000003 1704880000003,
       NavClick 0,
       Submit (example_values ''Late'' ''1'' ''food'' ''2024-01-20'') 1704880000004 1704880000004])
     = [ExpenseEl ''Early'' ''food'' (Some 1704412800000) ''$1.00'',
        ExpenseEl ''Last'' ''food'' None ''$1.00'',
        ExpenseEl ''Late'' ''food'' (Some 1705708800000) ''$1.00'']"
proof -
  let ?evs = "[Submit (example_values ''Far'' ''1'' ''food'' ''999999-01-01'') 1704880000001 1704880000001,
       NavClick 0,
       Submit (example_values ''Early'' ''1'' ''food'' ''2024-01-05'') 1704880000002 1704880000002,
       NavClick 0,
       Submit (example_values ''Farther'' ''1'' ''food'' ''999999-01-02'') 1704880000003 1704880000003,
       NavClick 0,
       Submit (example_values ''Late'' ''1'' ''food'' ''2024-01-20'') 1704880000004 1704880000004]"
  let ?evs' = "[Submit (example_values ''Early'' ''1'' ''food'' ''2024-01-05'') 1704880000002 1704880000002,
       NavClick 0,
       Submit (example_values ''Last'' ''1'' ''food'' ''275760-09-13'') 1704880000003 1704880000003,
       NavClick 0,
       Submit (example_values ''Late'' ''1'' ''food'' ''2024-01-20'') 1704880000004 1704880000004]"
  let ?doc' = "example_document\<lparr>LocalTZA := \<lambda>t. - 25200000\<rparr>"
  let ?shown = "[ExpenseEl ''Far'' ''food'' None ''$1.00'',
        ExpenseEl ''Early'' ''food'' (Some 1704412800000) ''$1.00'',
        ExpenseEl ''Farther'' ''food'' None ''$1.00'',
        ExpenseEl ''Late'' ''food'' (Some 1705708800000) ''$1.00'']"
  have far: "valid_date_string ''999999-01-01''" "valid_date_string ''999999-01-02''"
    "valid_date_string ''275760-09-13''"
    by (simp_all add: valid_date_string_def three_numbers_def is_digit_def digits_value_def
          digit_value_def Let_def days_in_month_def is_leap_year_def)
  have unread: "Date_parse (\<lambda>t. 0) ''999999-01-01'' = None"
    "Date_parse (\<lambda>t. 0) ''999999-01-02'' = None"
    "Date_parse (\<lambda>t. - 25200000) ''275760-09-13'' = None"
    by (simp_all add: date_eval)
  have t: "totalExpenditureEl (script_refs (elems example_document)) = Some 6"
    and l: "expenseListEl (script_refs (elems example_document)) = Some 7"
    using example_refs_eq by (simp_all add: example_refs_def)
  have t': "totalExpenditureEl (script_refs (elems ?doc')) = Some 6"
    and l': "expenseListEl (script_refs (elems ?doc')) = Some 7"
    using t l by simp_all
  have f: "toFixed 2 (Fin 1) = ''1.00''" by (simp add: toFixed_eval)
  have e: "expenses (example_session ?evs) =
      [example_expense 1704880000001 ''Far'' ''999999-01-01'',
       example_expense 1704880000002 ''Early'' ''2024-01-05'',
       example_expense 1704880000003 ''Farther'' ''999999-01-02'',
       example_expense 1704880000004 ''Late'' ''2024-01-20'']"
    by (simp add: example_session_def session_records accepted_example entered_example_date
          valid_date_examples far parseFloat_1 truthy_def example_expense_def)
  have e': "expenses (session 1704880000000 ?doc' ?evs') =
      [example_expense 1704880000002 ''Early'' ''2024-01-05'',
       example_expense 1704880000003 ''Last'' ''275760-09-13'',
       example_expense 1704880000004 ''Late'' ''2024-01-20'']"
    by (simp add: session_records accepted_example entered_example_date
          valid_date_examples far parseFloat_1 truthy_def example_expense_def)
  have z: "LocalTZA (example_session ?evs) = (\<lambda>t. 0)"
    "LocalTZA (session 1704880000000 ?doc' ?evs') = (\<lambda>t. - 25200000)"
    by (simp_all add: example_session_def session_LocalTZA)
  have "list_children (example_session ?evs)
          = map (expense_element (\<lambda>t. 0))
              (Array_sort (by_date_desc (\<lambda>t. 0)) (expenses (example_session ?evs)))"
    using session_list_rendered [OF t l, of 1704880000000 ?evs] e z(1)
    by (simp add: list_rendered_def example_session_def)
  also have "\<dots> = ?shown"
    unfolding e
    by (simp add: sort_eval by_date_desc_def expense_element_def example_expense_def
          Date_parse_examples unread f)
  finally have c: "list_children (example_session ?evs) = ?shown" .
  have "list_children (session 1704880000000 ?doc' ?evs')
          = map (expense_element (\<lambda>t. - 25200000))
              (Array_sort (by_date_desc (\<lambda>t. - 25200000))
                 (expenses (session 1704880000000 ?doc' ?evs')))"
    using session_list_rendered [OF t' l', of 1704880000000 ?evs'] e' z(2)
    by (simp add: list_rendered_def)
  also have "\<dots> = [ExpenseEl ''Early'' ''food'' (Some 1704412800000) ''$1.00'',
        ExpenseEl ''Last'' ''food'' None ''$1.00'',
        ExpenseEl ''Late'' ''food'' (Some 1705708800000) ''$1.00'']"
    unfolding e'
    by (simp add: sort_eval by_date_desc_def expense_element_def example_expense_def
          Date_parse_examples unread f)
  finally have c': "list_children (session 1704880000000 ?doc' ?evs')
      = [ExpenseEl ''Early'' ''food'' (Some 1704412800000) ''$1.00'',
        ExpenseEl ''Last'' ''food'' None ''$1.00'',
        ExpenseEl ''Late'' ''food'' (Some 1705708800000) ''$1.00'']" .
  have "\<not> newest_first ?shown"
    by (simp add: newest_first_def shown_time_def)
  with c c' far show ?thesis by simp
qed

text \<open>
  When every stored date parses, the list that \<^verbatim>\<open>updateUI\<close> renders is in descending
  order of date: it holds the entries of the records, sorted by date, newest first, with
  records of one date in the order of entry. Appending a record dated earlier than some
  stored record does not change the first entry.

  The dates a session stores through the date control are valid date strings
  (\<open>session_dates_valid\<close>); with a year of four digits they parse on every engine
  (\<open>valid_date_parses\<close>), so that the list is in descending order after every such
  session (\<open>session_list_sorted\<close>). V8 reads the control's dates with longer years as
  well, up to the last day a time value reaches.
\<close>

theorem list_sorted_by_date:
  assumes "totalExpenditureEl r = Some t" and "expenseListEl r = Some l"
    and "\<forall>e \<in> set (expenses st). Date_parse (LocalTZA st) (date e) \<noteq> None"
  shows "newest_first (list_children (snd (updateUI r st)))
       \<and> (expenses st \<noteq> [] \<longrightarrow>
            list_all (\<lambda>c. shown_time c \<noteq> None) (list_children (snd (updateUI r st)))
            \<and> mset (list_children (snd (updateUI r st)))
                = mset (map (expense_element (LocalTZA st)) (expenses st))
            \<and> list_children (snd (updateUI r st))
                = map (expense_element (LocalTZA st))
                    (sort_key (\<lambda>e. - time_of (LocalTZA st) e) (expenses st)))
       \<and> (\<forall>e. Date_parse (LocalTZA st) (date e) \<noteq> None
               \<and> (\<exists>x \<in> set (expenses st). earlier (LocalTZA st) e x) \<longrightarrow>
            hd (list_children (snd (updateUI r (st\<lparr>expenses := expenses st @ [e]\<rparr>))))
              = hd (list_children (snd (updateUI r st))))"
proof (cases "expenses st = []")
  case True
  then show ?thesis
    using assms(1,2)
    by (auto simp: updateUI_def Let_def newest_first_def shown_time_def)
next
  case False
  let ?z = "LocalTZA st"
  let ?S = "Array_sort (by_date_desc ?z) (expenses st)"
  let ?L = "list_children (snd (updateUI r st))"
  have l: "?L = map (expense_element ?z) ?S"
    by (rule updateUI_list [OF assms(1,2) False])
  have v: "\<forall>e \<in> set ?S. Date_parse ?z (date e) \<noteq> None"
    using assms(3) by (simp add: set_Array_sort)
  have "newest_first (map (expense_element ?z) ?S)"
    using sorted_Array_sort [OF assms(3)] v by (rule newest_first_sorted)
  then have 1: "newest_first ?L" by (simp only: l)
  have "list_all (\<lambda>c. shown_time c \<noteq> None) (map (expense_element ?z) ?S)"
    using v by (simp add: list_all_iff shown_time_expense_element)
  then have 2: "list_all (\<lambda>c. shown_time c \<noteq> None) ?L" by (simp only: l)
  have 3: "mset ?L = mset (map (expense_element ?z) (expenses st))"
    by (simp add: l mset_Array_sort)
  have "?S = sort_key (\<lambda>e. - time_of ?z e) (expenses st)"
    by (rule Array_sort_stable_sort [OF by_date_desc_key [OF assms(3)]])
  then have 4: "?L = map (expense_element ?z) (sort_key (\<lambda>e. - time_of ?z e) (expenses st))"
    by (simp only: l)
  have 5: "hd (list_children (snd (updateUI r (st\<lparr>expenses := expenses st @ [e]\<rparr>)))) = hd ?L"
    if e: "Date_parse ?z (date e) \<noteq> None" and x: "\<exists>x \<in> set (expenses st). earlier ?z e x" for e
  proof -
    have "\<exists>x \<in> set (expenses st). time_of ?z e < time_of ?z x"
      using x earlier_time_of by blast
    then have h: "hd (Array_sort (by_date_desc ?z) (expenses st @ [e])) = hd ?S"
      by (rule hd_Array_sort_append_earlier [OF assms(3) e])
    have "list_children (snd (updateUI r (st\<lparr>expenses := expenses st @ [e]\<rparr>)))
            = map (expense_element ?z) (Array_sort (by_date_desc ?z) (expenses st @ [e]))"
      using updateUI_list [OF assms(1,2), of "st\<lparr>expenses := expenses st @ [e]\<rparr>"] by simp
    then show ?thesis
      using h False by (simp add: l hd_map Array_sort_Nil_iff)
  qed
  show ?thesis
    using 1 2 3 4 5 by blast
qed

theorem list_sorted_by_date_witness:
  "totalExpenditureEl example_refs = Some 6 \<and> expenseListEl example_refs = Some 7
   \<and> Date_parse (\<lambda>t. 0) ''2024-01-05'' = Some 1704412800000
   \<and> Date_parse (\<lambda>t. 0) ''2024-01-20'' = Some 1705708800000
   \<and> earlier (\<lambda>t. 0) (example_expense 3 ''Early'' ''2024-01-05'')
       (example_expense 2 ''Late'' ''2024-01-20'')
   \<and> list_children (snd (updateUI example_refs
        (example_document\<lparr>expenses :=
           [example_expense 1 ''Early'' ''2024-01-05'', example_expense 2 ''Late'' ''2024-01-20'']\<rparr>)))
      = [ExpenseEl ''Late'' ''food'' (Some 1705708800000) ''$1.00'',
         ExpenseEl ''Early'' ''food'' (Some 1704412800000) ''$1.00'']
   \<and> newest_first (list_children (snd (updateUI example_refs
        (example_document\<lparr>expenses :=
           [example_expense 1 ''Early'' ''2024-01-05'', example_expense 2 ''Late'' ''2024-01-20'']\<rparr>))))
   \<and> hd (list_children (snd (updateUI example_refs
        (example_document\<lparr>expenses :=
           [example_expense 1 ''Early'' ''2024-01-05'', example_expense 2 ''Late'' ''2024-01-20'',
            example_expense 3 ''Early'' ''2024-01-05'']\<rparr>))))
      = ExpenseEl ''Late'' ''food'' (Some 1705708800000) ''$1.00''"
proof -
  let ?st = "example_document\<lparr>expenses :=
           [example_expense 1 ''Early'' ''2024-01-05'', example_expense 2 ''Late'' ''2024-01-20'']\<rparr>"
  let ?e = "example_expense 3 ''Early'' ''2024-01-05''"
  have t: "totalExpenditureEl example_refs = Some 6" and l: "expenseListEl example_refs = Some 7"
    by (simp_all add: example_refs_eq)
  have v: "\<forall>e \<in> set (expenses ?st). Date_parse (LocalTZA ?st) (date e) \<noteq> None"
    by (simp add: example_expense_def Date_parse_examples)
  have ve: "Date_parse (LocalTZA ?st) (date ?e) \<noteq> None"
    by (simp add: example_expense_def Date_parse_examples)
  have ea: "earlier (\<lambda>t. 0) ?e (example_expense 2 ''Late'' ''2024-01-20'')"
    by (simp add: earlier_def example_expense_def Date_parse_examples)
  then have ex: "\<exists>x \<in> set (expenses ?st). earlier (LocalTZA ?st) ?e x" by simp
  have d: "Date_parse (\<lambda>t. 0) ''2024-01-05'' = Some 1704412800000"
    "Date_parse (\<lambda>t. 0) ''2024-01-20'' = Some 1705708800000"
    by (simp_all add: Date_parse_examples)
  have f: "toFixed 2 (Fin 1) = ''1.00''" by (simp add: toFixed_eval)
  note srt = list_sorted_by_date [OF t l v]
  have ne: "expenses ?st \<noteq> []" by simp
  have n: "newest_first (list_children (snd (updateUI example_refs ?st)))"
    using srt by (rule conjunct1)
  have s: "list_children (snd (updateUI example_refs ?st))
          = map (expense_element (LocalTZA ?st))
              (sort_key (\<lambda>e. - time_of (LocalTZA ?st) e) (expenses ?st))"
    using srt ne by blast
  have h: "hd (list_children (snd (updateUI example_refs (?st\<lparr>expenses := expenses ?st @ [?e]\<rparr>))))
          = hd (list_children (snd (updateUI example_refs ?st)))"
    using srt ve ex by blast
  have c: "list_children (snd (updateUI example_refs ?st))
      = [ExpenseEl ''Late'' ''food'' (Some 1705708800000) ''$1.00'',
         ExpenseEl ''Early'' ''food'' (Some 1704412800000) ''$1.00'']"
    unfolding s
    by (simp add: time_of_def expense_element_def example_expense_def Date_parse_examples f)
  show ?thesis
    using t l d ea n h c by simp
qed

text \<open>
  C3 (amended). Once \<^verbatim>\<open>updateUI\<close> has run (at load, on a document with the logger
  view, or at the first accepted submission), and whatever events follow, the displayed
  total is the currency symbol followed by \<^verbatim>\<open>toFixed(2)\<close> of the double-precision sum
  of the stored amounts, added in the order of submission starting from zero; the stored
  amounts are the parsed amounts of the accepted submissions; and when that sum is finite
  and below \<open>10 ^ 21\<close> in magnitude the text has exactly two decimal places.
\<close>

theorem displayed_total:
  assumes "totalExpenditureEl (script_refs (elems doc)) = Some t"
    and "getElementById ''logger-page'' (elems doc) \<noteq> None
         \<or> list_ex (accepted (script_refs (elems doc))) evs"
  shows "textContent (elems (session today doc evs) ! t)
           = ''$'' @ toFixed 2 (expenses_total (expenses (session today doc evs)))
       \<and> map amount (expenses (session today doc evs))
           = map submitted_amount (filter (accepted (script_refs (elems doc))) evs)
       \<and> (\<forall>q. expenses_total (expenses (session today doc evs)) = Fin q \<and> \<bar>q\<bar> < 10 ^ 21
              \<longrightarrow> two_decimals (toFixed 2 (expenses_total (expenses (session today doc evs)))))"
proof -
  have "map amount (expenses (session today doc evs))
          = map submitted_amount (filter (accepted (script_refs (elems doc))) evs)"
    using run_amounts [of "script_refs (elems doc)" "snd (DOMContentLoaded today doc)" evs]
    by (simp add: session_def DOMContentLoaded_expenses)
  then show ?thesis
    using session_total_text [OF assms] toFixed_two_decimals by auto
qed

theorem displayed_total_witness:
  "totalExpenditureEl (script_refs (elems example_document)) = Some 6
   \<and> getElementById ''logger-page'' (elems example_document) \<noteq> None
   \<and> textContent (elems (example_session
      [Submit (example_values ''Coffee'' ''4.50'' ''food'' ''2024-01-10'') 1704880000123 1704880000123,
       Timeout, NavClick 0,
       Submit (example_values ''Bus'' [] ''travel'' ''2024-01-10'') 1704880030000 1704880030000,
       Submit (example_values ''Bus'' ''12'' ''travel'' ''2024-01-10'') 1704880060000 1704880060000,
       NavClick 0]) ! 6)
     = ''$16.50''
   \<and> two_decimals ''16.50''"
proof -
  let ?evs = "[Submit (example_values ''Coffee'' ''4.50'' ''food'' ''2024-01-10'') 1704880000123 1704880000123,
       Timeout, NavClick 0,
       Submit (example_values ''Bus'' [] ''travel'' ''2024-01-10'') 1704880030000 1704880030000,
       Submit (example_values ''Bus'' ''12'' ''travel'' ''2024-01-10'') 1704880060000 1704880060000,
       NavClick 0]"
  have t: "totalExpenditureEl (script_refs (elems example_document)) = Some 6"
    using example_refs_eq by (simp add: example_refs_def)
  have g: "getElementById ''logger-page'' (elems example_document) \<noteq> None" by code_simp
  then have h: "getElementById ''logger-page'' (elems example_document) \<noteq> None
         \<or> list_ex (accepted (script_refs (elems example_document))) ?evs" by (rule disjI1)
  have a: "map submitted_amount (filter (accepted (script_refs (elems example_document))) ?evs)
             = [Fin (9 / 2), Fin 12]"
    by (simp add: submitted_amount_def accepted_def accepted_example valid_date_examples
          parseFloat_450 parseFloat_12 parseFloat_empty truthy_def)
  have s: "expenses_total xs = Fin (33 / 2)" if "map amount xs = [Fin (9 / 2), Fin 12]" for xs
  proof -
    have "expenses_total xs = foldl js_add (Fin 0) (map amount xs)"
      by (simp add: expenses_total_def foldl_map)
    then show ?thesis using that total_450_12 by (simp del: js_add.simps)
  qed
  have d: "textContent (elems (session 1704880000000 example_document ?evs) ! 6)
             = ''$'' @ toFixed 2 (expenses_total (expenses (session 1704880000000 example_document ?evs)))"
    and m: "map amount (expenses (session 1704880000000 example_document ?evs))
             = map submitted_amount (filter (accepted (script_refs (elems example_document))) ?evs)"
    using displayed_total [OF t h, of 1704880000000] by simp_all
  have "expenses_total (expenses (session 1704880000000 example_document ?evs)) = Fin (33 / 2)"
    by (rule s) (simp only: m a)
  with d have x: "textContent (elems (example_session ?evs) ! 6) = ''$16.50''"
    by (simp only: example_session_def toFixed_1650 append.simps)
  have y: "two_decimals ''16.50''"
    by (simp add: two_decimals_def is_digit_def)
  show ?thesis
    by (intro conjI t g x y)
qed

text \<open>
  The total is neither the exact sum nor always written with two decimals: after amounts
  \<^verbatim>\<open>1e21\<close> and \<^verbatim>\<open>1\<close> the page shows \<^verbatim>\<open>$1e+21\<close>.
\<close>

theorem displayed_total_counterexample:
  "textContent (elems (example_session
      [Submit (example_values ''Car'' ''1e21'' ''travel'' ''2024-01-10'') 1704880000123 1704880000123,
       NavClick 0,
       Submit (example_values ''Gum'' ''1'' ''food'' ''2024-01-10'') 1704880060000 1704880060000]) ! 6)
     = ''$1e+21''
   \<and> exact_total_text (expenses (example_session
      [Submit (example_values ''Car'' ''1e21'' ''travel'' ''2024-01-10'') 1704880000123 1704880000123,
       NavClick 0,
       Submit (example_values ''Gum'' ''1'' ''food'' ''2024-01-10'') 1704880060000 1704880060000]))
     = Some ''$1000000000000000000001.00''"
proof -
  let ?evs = "[Submit (example_values ''Car'' ''1e21'' ''travel'' ''2024-01-10'') 1704880000123 1704880000123,
       NavClick 0,
       Submit (example_values ''Gum'' ''1'' ''food'' ''2024-01-10'') 1704880060000 1704880060000]"
  have e: "expenses (example_session ?evs) =
      [\<lparr>expense_id = 1704880000123, description = ''Car'', amount = Fin (1000000000000000000000),
         category = ''travel'', date = ''2024-01-10''\<rparr>,
       \<lparr>expense_id = 1704880060000, description = ''Gum'', amount = Fin 1,
         category = ''food'', date = ''2024-01-10''\<rparr>]"
    by (simp add: example_session_def session_records accepted_example entered_example_date
          valid_date_examples parseFloat_1e21 parseFloat_1 truthy_def)
  have t: "totalExpenditureEl (script_refs (elems example_document)) = Some 6"
    using example_refs_eq by (simp add: example_refs_def)
  have g: "getElementById ''logger-page'' (elems example_document) \<noteq> None" by code_simp
  have "textContent (elems (example_session ?evs) ! 6)
          = ''$'' @ toFixed 2 (expenses_total (expenses (example_session ?evs)))"
    unfolding example_session_def by (rule session_total_text [OF t disjI1 [OF g]])
  also have "\<dots> = ''$1e+21''"
    unfolding e by (simp add: expenses_total_def total_1e21_1 toFixed_1e21 del: js_add.simps)
  finally have 1: "textContent (elems (example_session ?evs) ! 6) = ''$1e+21''" .
  have 2: "exact_total_text (expenses (example_session ?evs)) = Some ''$1000000000000000000001.00''"
    unfolding e by (simp add: exact_total_text_def is_finite_def value_of_def fixed_digits_exact_total)
  from 1 2 show ?thesis by (rule conjI)
qed

subsection \<open>The stored records\<close>

text \<open>
  C8 (amended). The id of a record is the clock reading taken at its submission: the ids
  in the array are the readings of the accepted submissions, in order. Two records have
  distinct ids whenever their submissions read distinct clock values, so that the ids are
  all distinct when the readings are; and later events leave the records in the array as
  they are.
\<close>

theorem ids_distinct_at_distinct_readings:
  "map expense_id (expenses (session today doc evs))
     = accepted_readings (script_refs (elems doc)) evs
   \<and> (\<forall>i j. i < length (expenses (session today doc evs))
          \<and> j < length (expenses (session today doc evs))
          \<and> accepted_readings (script_refs (elems doc)) evs ! i
              \<noteq> accepted_readings (script_refs (elems doc)) evs ! j
        \<longrightarrow> expense_id (expenses (session today doc evs) ! i)
              \<noteq> expense_id (expenses (session today doc evs) ! j))
   \<and> (distinct (accepted_readings (script_refs (elems doc)) evs)
        \<longrightarrow> distinct (map expense_id (expenses (session today doc evs))))
   \<and> (\<forall>evs'. take (length (expenses (session today doc evs)))
                 (expenses (session today doc (evs @ evs')))
               = expenses (session today doc evs))"
proof -
  let ?S = "expenses (session today doc evs)"
  let ?A = "accepted_readings (script_refs (elems doc)) evs"
  have ids: "map expense_id ?S = ?A"
    using run_ids [of "script_refs (elems doc)" "snd (DOMContentLoaded today doc)" evs]
    by (simp add: session_def DOMContentLoaded_expenses)
  have nth: "expense_id (?S ! i) = ?A ! i" if "i < length ?S" for i
    using that nth_map [of i ?S expense_id] by (simp only: ids)
  have pairwise: "expense_id (?S ! i) \<noteq> expense_id (?S ! j)"
    if "i < length ?S" "j < length ?S" "?A ! i \<noteq> ?A ! j" for i j
    using that by (simp add: nth)
  have kept: "take (length ?S) (expenses (session today doc (evs @ evs'))) = ?S" for evs'
    by (simp add: session_records)
  show ?thesis
    using ids pairwise kept by simp
qed

theorem ids_distinct_at_distinct_readings_witness:
  "accepted_readings (script_refs (elems example_document))
      [Submit (example_values ''Coffee'' ''4.50'' ''food'' ''2024-01-10'') 1704880000123 1704880000123,
       NavClick 0,
       Submit (example_values ''Tea'' ''4.50'' ''food'' ''2024-01-10'') 1704880000123 1704880000123,
       NavClick 0,
       Submit (example_values ''Bus'' ''12'' ''travel'' ''2024-01-10'') 1704880060000 1704880060000]
     = [1704880000123, 1704880000123, 1704880060000]
   \<and> map expense_id (expenses (example_session
      [Submit (example_values ''Coffee'' ''4.50'' ''food'' ''2024-01-10'') 1704880000123 1704880000123,
       NavClick 0,
       Submit (example_values ''Tea'' ''4.50'' ''food'' ''2024-01-10'') 1704880000123 1704880000123,
       NavClick 0,
       Submit (example_values ''Bus'' ''12'' ''travel'' ''2024-01-10'') 1704880060000 1704880060000]))
     = [1704880000123, 1704880000123, 1704880060000]
   \<and> expense_id (expenses (example_session
      [Submit (example_values ''Coffee'' ''4.50'' ''food'' ''2024-01-10'') 1704880000123 1704880000123,
       NavClick 0,
       Submit (example_values ''Tea'' ''4.50'' ''food'' ''2024-01-10'') 1704880000123 1704880000123,
       NavClick 0,
       Submit (example_values ''Bus'' ''12'' ''travel'' ''2024-01-10'') 1704880060000 1704880060000]) ! 1)
     \<noteq> expense_id (expenses (example_session
      [Submit (example_values ''Coffee'' ''4.50'' ''food'' ''2024-01-10'') 1704880000123 1704880000123,
       NavClick 0,
       Submit (example_values ''Tea'' ''4.50'' ''food'' ''2024-01-10'') 1704880000123 1704880000123,
       NavClick 0,
       Submit (example_values ''Bus'' ''12'' ''travel'' ''2024-01-10'') 1704880060000 1704880060000]) ! 2)"
proof -
  let ?evs = "[Submit (example_values ''Coffee'' ''4.50'' ''food'' ''2024-01-10'') 1704880000123 1704880000123,
       NavClick 0,
       Submit (example_values ''Tea'' ''4.50'' ''food'' ''2024-01-10'') 1704880000123 1704880000123,
       NavClick 0,
       Submit (example_values ''Bus'' ''12'' ''travel'' ''2024-01-10'') 1704880060000 1704880060000]"
  let ?S = "expenses (session 1704880000000 example_document ?evs)"
  have a: "accepted_readings (script_refs (elems example_document)) ?evs
             = [1704880000123, 1704880000123, 1704880060000]"
    by (simp add: accepted_readings_def accepted_example valid_date_examples
          parseFloat_450 parseFloat_12 truthy_def)
  from ids_distinct_at_distinct_readings [of 1704880000000 example_document ?evs]
  have m: "map expense_id ?S = accepted_readings (script_refs (elems example_document)) ?evs"
    and p: "\<And>i j. i < length ?S \<Longrightarrow> j < length ?S
          \<Longrightarrow> accepted_readings (script_refs (elems example_document)) ?evs ! i
              \<noteq> accepted_readings (script_refs (elems example_document)) ?evs ! j
          \<Longrightarrow> expense_id (?S ! i) \<noteq> expense_id (?S ! j)"
    by blast+
  have l: "length ?S = 3"
    using arg_cong [OF m, of length] by (simp only: a length_map) simp
  have "expense_id (?S ! 1) \<noteq> expense_id (?S ! 2)"
    by (rule p) (simp_all add: l a)
  then show ?thesis
    using a m by (simp add: example_session_def)
qed

text \<open>Two submissions at one clock reading get one id.\<close>

theorem ids_distinct_at_distinct_readings_counterexample:
  "map expense_id (expenses (example_session
      [Submit (example_values ''Coffee'' ''4.50'' ''food'' ''2024-01-10'') 1704880000123 1704880000123,
       NavClick 0,
       Submit (example_values ''Bus'' ''12'' ''travel'' ''2024-01-10'') 1704880000123 1704880000123]))
     = [1704880000123, 1704880000123]"
  by (simp add: example_session_def session_def run_ids DOMContentLoaded_expenses
        accepted_readings_def accepted_example valid_date_examples
        parseFloat_450 parseFloat_12 truthy_def)

text \<open>
  C9 (amended). Every record in the array has an amount that is a number other than NaN
  and zero; it may be negative or infinite.
\<close>

theorem stored_amounts_truthy:
  "\<forall>e \<in> set (expenses (session today doc evs)). truthy (amount e)"
  unfolding session_def
  by (rule run_truthy) (simp add: DOMContentLoaded_expenses)

theorem stored_amounts_truthy_witness:
  "expenses (example_session
          [Submit (example_values ''Refund'' ''-5'' ''food'' ''2024-01-10'') 1704880000123 1704880000123])
     = [\<lparr>expense_id = 1704880000123, description = ''Refund'', amount = Fin (- 5),
         category = ''food'', date = ''2024-01-10''\<rparr>]
   \<and> truthy (Fin (- 5))"
  using stored_amounts_truthy [of 1704880000000 example_document
          "[Submit (example_values ''Refund'' ''-5'' ''food'' ''2024-01-10'') 1704880000123 1704880000123]"]
  by (simp add: example_session_def session_records accepted_example entered_example_date
        valid_date_examples parseFloat_minus5 truthy_def)

text \<open>A negative amount passes the check and is stored.\<close>

theorem stored_amounts_truthy_counterexample:
  "\<not> list_all (\<lambda>e. is_positive (amount e))
       (expenses (example_session
          [Submit (example_values ''Refund'' ''-5'' ''food'' ''2024-01-10'') 1704880000123 1704880000123]))"
  by (simp add: example_session_def session_records accepted_example entered_example_date
        valid_date_examples parseFloat_minus5 truthy_def is_positive_def)

end
